theory Spec2Isabelle
  imports Complex_Main "HOL-Library.Log_Nat" "HOL-Library.Multiset"
begin

section \<open>The JavaScript Number type\<close>

text \<open>
  Every number of \<^verbatim>\<open>script.js\<close> is an IEEE-754 binary64 value. The counters (score,
  streak, counts, indices, seconds) only ever hold integers far below \<open>2^53\<close>, where
  addition and comparison are exact, so they are modelled as \<open>int\<close> and \<open>nat\<close>. The two
  places that leave the integers, the streak multiplier and the accuracy percentage, are
  modelled with the rounding of binary64 written out over the rationals: \<open>fl64 x\<close> is the
  double nearest to \<open>x\<close> (ties to the even significand). The exponent range is not
  modelled; every value computed here lies far inside it. The two floors of a quotient of
  integers, \<^verbatim>\<open>Math.floor(STATE.streak / 3)\<close> and \<^verbatim>\<open>Math.floor(STATE.xp / 100)\<close>, are
  written with \<open>div\<close>: for integers below \<open>2^53\<close> the rounded quotient has the floor
  of the exact one (lemma \<open>floor_quotient\<close> at the end).
\<close>

definition expo :: "rat \<Rightarrow> int" where
  "expo x = (let (p, q) = quotient_of x; d = bitlen p - bitlen q
             in if 2 powi d \<le> x then d else d - 1)"

definition rne :: "rat \<Rightarrow> int" where
  "rne y = (let f = \<lfloor>y\<rfloor>; r = y - of_int f
            in if r < 1 / 2 then f
               else if 1 / 2 < r then f + 1
               else if even f then f else f + 1)"

definition fl64 :: "rat \<Rightarrow> rat" where
  "fl64 x = (if x = 0 then 0
             else let u = 2 powi (expo \<bar>x\<bar> - 52)
                  in of_int (rne (x / u)) * u)"

text \<open>\<^verbatim>\<open>Math.round\<close>: the nearest integer, a tie going towards plus infinity.\<close>

definition Math_round :: "rat \<Rightarrow> int" where
  "Math_round x = \<lfloor>x + 1 / 2\<rfloor>"

section \<open>Configuration and state\<close>

definition TIMER_EASY :: int where "TIMER_EASY = 60"
definition TIMER_MEDIUM :: int where "TIMER_MEDIUM = 50"
definition TIMER_HARD :: int where "TIMER_HARD = 40"
definition TIMER_BASE :: int where "TIMER_BASE = 15"
definition POINTS_PER_Q :: int where "POINTS_PER_Q = 10"

text \<open>
  \<^verbatim>\<open>userSelected\<close> is absent until the question is resolved, \<^verbatim>\<open>null\<close> after a
  timeout and the chosen answer after a click.
\<close>

datatype selection = Unset | Null | Picked string

record question =
  correct_answer :: string
  incorrect_answers :: "string list"
  answers :: "string list"
  userSelected :: selection

text \<open>
  An option card of the page: what reading its \<^verbatim>\<open>innerHTML\<close> returns, its click handler
  (the closure \<^verbatim>\<open>() => handleAnswer(btn, ans, q.correct_answer)\<close>, kept as the pair
  of the two strings it passes, \<open>None\<close> for \<^verbatim>\<open>null\<close>) and its visibility. Reading
  \<^verbatim>\<open>innerHTML\<close> does not return the string that was assigned: the browser parses the
  assigned string and serialises the result again (\<^verbatim>\<open>R&B\<close> reads back as
  \<^verbatim>\<open>R&amp;B\<close>). The handler keeps the strings as they are in the question.
\<close>

record card =
  innerHTML :: string
  onclick :: "(string \<times> string) option"
  hidden :: bool

record lifeline_flags =
  fifty :: bool
  freeze :: bool
  skip :: bool

text \<open>
  The two deferred callbacks of the session logic (\<^verbatim>\<open>setTimeout\<close>): the one that
  \<^verbatim>\<open>handleAnswer\<close> schedules 800 ms after an answer, which holds the cards that were
  on the page then, and the one that \<^verbatim>\<open>useFreeze\<close> schedules ten seconds after a freeze.
\<close>

datatype timeout = EnableNext nat | Unfreeze

datatype tier = QuizMaster | GoodJob | KeepPracticing | TryAgain

record summary =
  final_score :: int
  correct_shown :: nat
  wrong_shown :: nat
  accuracy_percent :: int
  final_message :: tier

text \<open>
  The global \<^verbatim>\<open>STATE\<close> object, followed by the parts of the page that the session
  logic reads back: whether the next button is disabled, the option cards of the rendered
  question, and the result screen. \<open>timer_live\<close> says whether the interval whose handle
  is in \<^verbatim>\<open>STATE.timer\<close> is still running (\<^verbatim>\<open>startTimer\<close> clears the old interval
  before it stores a new one, so there is never a second one). \<open>cardsGen\<close> counts the
  renderings: \<^verbatim>\<open>renderQuestion\<close> throws the old cards away, and a callback that still
  holds them no longer reaches the cards on the page. \<open>pending\<close> lists the scheduled
  callbacks that have not fired yet. \<open>readBack\<close> is the browser: the string that reading
  \<^verbatim>\<open>innerHTML\<close> returns after a given string has been assigned to it; the script never
  changes it. \<open>currentQuestionIndex\<close> is the property that only
  \<^verbatim>\<open>stateReset\<close> creates. Sounds, toasts, confetti, the chart, CSS
  classes and the persistence calls do not feed back into the session and are left out.
\<close>

record state =
  questions :: "question list"
  currIndex :: nat
  score :: int
  streak :: nat
  timer_live :: bool
  timeLeft :: int
  difficulty :: string
  lifelines :: lifeline_flags
  isFrozen :: bool
  xp :: int
  level :: int
  correctCount :: nat
  wrongCount :: nat
  xpGained :: int
  currentQuestionIndex :: "nat option"
  nextBtn_disabled :: bool
  cards :: "card list"
  cardsGen :: nat
  result_screen :: "summary option"
  pending :: "timeout list"
  readBack :: "string \<Rightarrow> string"

text \<open>
  A handler that throws stops where it is; what it had already written stays. The error
  therefore carries the state at the throw.
\<close>

datatype error = TypeError

type_synonym outcome = "(error \<times> state) + state"

definition settle :: "outcome \<Rightarrow> state" where
  "settle r = (case r of Inl (e, st) \<Rightarrow> st | Inr st \<Rightarrow> st)"

section \<open>The session logic\<close>

definition toLowerCase :: "string \<Rightarrow> string" where
  "toLowerCase s =
     map (\<lambda>c. let n = (of_char c :: nat)
               in if 65 \<le> n \<and> n \<le> 90 then char_of (n + 32) else c) s"

definition startTimer :: "state \<Rightarrow> state" where
  "startTimer st = st\<lparr>timer_live := True\<rparr>"

definition renderCards :: "(string \<Rightarrow> string) \<Rightarrow> question \<Rightarrow> card list" where
  "renderCards rb q =
     map (\<lambda>ans. \<lparr>innerHTML = rb ans, onclick = Some (ans, correct_answer q), hidden = False\<rparr>)
       (answers q)"

definition renderQuestion :: "state \<Rightarrow> outcome" where
  "renderQuestion st =
     (if currIndex st < length (questions st) then
        let q = questions st ! currIndex st;
            d = toLowerCase (difficulty st);
            st1 = st\<lparr>cards := renderCards (readBack st) q, cardsGen := cardsGen st + 1\<rparr>;
            st2 = st1\<lparr>timeLeft :=
                    (if d = ''easy'' then TIMER_EASY
                     else if d = ''medium'' then TIMER_MEDIUM
                     else if d = ''hard'' then TIMER_HARD
                     else TIMER_BASE)\<rparr>
        in Inr (startTimer (st2\<lparr>isFrozen := False\<rparr>))
      else Inl (TypeError, st))"

definition addXP :: "int \<Rightarrow> state \<Rightarrow> state" where
  "addXP amount st =
     (let st1 = st\<lparr>xp := xp st + amount\<rparr>;
          nextLevel = xp st1 div 100 + 1
      in if nextLevel > level st1 then st1\<lparr>level := nextLevel\<rparr> else st1)"

definition streakMult :: "nat \<Rightarrow> rat" where
  "streakMult s = fl64 (1 + fl64 (of_nat (s div 3) * fl64 (1 / 10)))"

definition answerPoints :: "nat \<Rightarrow> int \<Rightarrow> int" where
  "answerPoints s t =
     (let timeBonus = max 0 t
      in Math_round (fl64 (of_int (POINTS_PER_Q + timeBonus) * streakMult s)))"

definition setTimeout :: "timeout \<Rightarrow> state \<Rightarrow> state" where
  "setTimeout cb st = st\<lparr>pending := pending st @ [cb]\<rparr>"

definition handleAnswer :: "string \<Rightarrow> string \<Rightarrow> state \<Rightarrow> outcome" where
  "handleAnswer selected correct st =
     (if \<not> nextBtn_disabled st then Inr st
      else
        let st1 = st\<lparr>timer_live := False\<rparr>
        in if currIndex st1 < length (questions st1) then
             let q = questions st1 ! currIndex st1;
                 st2 = st1\<lparr>questions :=
                         (questions st1)[currIndex st1 := q\<lparr>userSelected := Picked selected\<rparr>]\<rparr>;
                 st3 =
                   (if selected = correct then
                      let points = answerPoints (streak st2) (timeLeft st2)
                      in addXP points
                           (st2\<lparr>score := score st2 + points,
                                streak := streak st2 + 1,
                                correctCount := correctCount st2 + 1\<rparr>)
                    else st2\<lparr>streak := 0, wrongCount := wrongCount st2 + 1\<rparr>)
             in Inr (setTimeout (EnableNext (cardsGen st3)) st3)
           else Inl (TypeError, st1))"

text \<open>
  The callback that \<^verbatim>\<open>handleAnswer\<close> scheduled, when it fires: it takes the click
  handlers off the cards it holds (\<open>g\<close> is their rendering) and enables the next button.
\<close>

definition answerDelay :: "nat \<Rightarrow> state \<Rightarrow> state" where
  "answerDelay g st =
     (let st1 = (if g = cardsGen st
                 then st\<lparr>cards := map (\<lambda>c. c\<lparr>onclick := None\<rparr>) (cards st)\<rparr>
                 else st)
      in st1\<lparr>nextBtn_disabled := False\<rparr>)"

definition handleTimeOut :: "state \<Rightarrow> outcome" where
  "handleTimeOut st =
     (if currIndex st < length (questions st) then
        let q = questions st ! currIndex st;
            st1 = st\<lparr>questions := (questions st)[currIndex st := q\<lparr>userSelected := Null\<rparr>]\<rparr>;
            st2 = st1\<lparr>cards := map (\<lambda>c. c\<lparr>onclick := None\<rparr>) (cards st1)\<rparr>
        in Inr (st2\<lparr>streak := 0, nextBtn_disabled := False\<rparr>)
      else Inl (TypeError, st))"

text \<open>One firing of the interval that \<^verbatim>\<open>startTimer\<close> installs.\<close>

definition tick :: "state \<Rightarrow> outcome" where
  "tick st =
     (if isFrozen st then Inr st
      else
        let st1 = st\<lparr>timeLeft := timeLeft st - 1\<rparr>
        in if timeLeft st1 \<le> 0 then handleTimeOut (st1\<lparr>timer_live := False\<rparr>)
           else Inr st1)"

definition accuracy :: "nat \<Rightarrow> nat \<Rightarrow> int" where
  "accuracy c w =
     (let totalAnswered = c + w
      in if totalAnswered > 0
         then Math_round (fl64 (fl64 (of_nat c / of_nat totalAnswered) * 100))
         else 0)"

definition endGame :: "state \<Rightarrow> state" where
  "endGame st =
     (let sessionXP = score st;
          st1 = st\<lparr>xpGained := sessionXP\<rparr>;
          acc = accuracy (correctCount st1) (wrongCount st1)
      in st1\<lparr>result_screen := Some
           \<lparr>final_score = score st1,
            correct_shown = correctCount st1,
            wrong_shown = wrongCount st1,
            accuracy_percent = acc,
            final_message =
              (if acc \<ge> 80 then QuizMaster
               else if acc \<ge> 60 then GoodJob
               else if acc \<ge> 40 then KeepPracticing
               else TryAgain)\<rparr>\<rparr>)"

definition nextQuestion :: "state \<Rightarrow> outcome" where
  "nextQuestion st =
     (let st1 = st\<lparr>currIndex := currIndex st + 1, nextBtn_disabled := True\<rparr>
      in if currIndex st1 < length (questions st1) then renderQuestion st1
         else Inr (endGame st1))"

text \<open>
  \<^verbatim>\<open>use5050\<close>: the indices of the cards whose text differs from the correct answer,
  in page order, and the loop that hides the first two of them when they exist.
\<close>

definition wrongCards :: "string \<Rightarrow> card list \<Rightarrow> nat list" where
  "wrongCards correct cs = filter (\<lambda>j. innerHTML (cs ! j) \<noteq> correct) [0..<length cs]"

definition hideCard :: "nat \<Rightarrow> card list \<Rightarrow> card list" where
  "hideCard j cs = cs[j := (cs ! j)\<lparr>hidden := True\<rparr>]"

definition hideTwo :: "nat list \<Rightarrow> card list \<Rightarrow> card list" where
  "hideTwo wrong cs =
     fold (\<lambda>i acc. if i < length wrong then hideCard (wrong ! i) acc else acc) [0, 1] cs"

definition use5050 :: "state \<Rightarrow> outcome" where
  "use5050 st =
     (if \<not> fifty (lifelines st) then Inr st
      else if cards st = [] then
        Inr (st\<lparr>lifelines := (lifelines st)\<lparr>fifty := False\<rparr>\<rparr>)
      else if currIndex st < length (questions st) then
        let q = questions st ! currIndex st;
            wrong = wrongCards (correct_answer q) (cards st)
        in Inr (st\<lparr>cards := hideTwo wrong (cards st),
                    lifelines := (lifelines st)\<lparr>fifty := False\<rparr>\<rparr>)
      else Inl (TypeError, st))"

definition useFreeze :: "state \<Rightarrow> state" where
  "useFreeze st =
     (if \<not> freeze (lifelines st) then st
      else setTimeout Unfreeze
             (st\<lparr>isFrozen := True, lifelines := (lifelines st)\<lparr>freeze := False\<rparr>\<rparr>))"

text \<open>The callback that \<^verbatim>\<open>useFreeze\<close> scheduled, when it fires.\<close>

definition unfreezeDelay :: "state \<Rightarrow> state" where
  "unfreezeDelay st = st\<lparr>isFrozen := False\<rparr>"

definition useSkip :: "state \<Rightarrow> outcome" where
  "useSkip st =
     (if \<not> skip (lifelines st) then Inr st
      else
        let st1 = st\<lparr>lifelines := (lifelines st)\<lparr>skip := False\<rparr>\<rparr>;
            st2 = st1\<lparr>score := score st1 + POINTS_PER_Q\<rparr>
        in nextQuestion (st2\<lparr>timer_live := False\<rparr>))"

definition stateReset :: "state \<Rightarrow> state" where
  "stateReset st = st\<lparr>score := 0, currentQuestionIndex := Some 0, questions := []\<rparr>"

definition goHome :: "state \<Rightarrow> state" where
  "goHome st = stateReset st"

definition startGame :: "state \<Rightarrow> outcome" where
  "startGame st =
     renderQuestion
       (st\<lparr>currIndex := 0, score := 0, streak := 0, correctCount := 0, wrongCount := 0,
           lifelines := \<lparr>fifty = True, freeze = True, skip = True\<rparr>,
           isFrozen := False\<rparr>)"

section \<open>Events\<close>

text \<open>
  What can happen to a running page, one event at a time (JavaScript runs each handler to
  its end before the next one starts): a click on the option card at a position, a firing
  of the countdown interval, a click on the next button, on one of the three lifeline
  buttons or on a button bound to \<^verbatim>\<open>goHome\<close>, the firing of one of the pending
  callbacks, and the start of a session: \<^verbatim>\<open>validateAndStart\<close> and \<^verbatim>\<open>startNextSet\<close>
  store the questions that \<^verbatim>\<open>fetchQuestions\<close> selected and go on as \<^verbatim>\<open>startGame\<close>
  does. A disabled next button and a card without handler dispatch nothing; a cleared
  interval does not fire. A handler that throws leaves the state where it stopped.
\<close>

datatype event =
  Click nat | Tick | NextClick | Use5050 | UseFreeze | UseSkip | Fire nat | GoHome
  | Start "question list"

definition runTimeout :: "timeout \<Rightarrow> state \<Rightarrow> state" where
  "runTimeout cb st = (case cb of EnableNext g \<Rightarrow> answerDelay g st | Unfreeze \<Rightarrow> unfreezeDelay st)"

fun fire :: "event \<Rightarrow> state \<Rightarrow> state" where
  "fire (Click i) st =
     (if i < length (cards st) then
        (case onclick (cards st ! i) of
           None \<Rightarrow> st
         | Some (ans, correct) \<Rightarrow> settle (handleAnswer ans correct st))
      else st)"
| "fire Tick st = (if timer_live st then settle (tick st) else st)"
| "fire NextClick st = (if nextBtn_disabled st then st else settle (nextQuestion st))"
| "fire Use5050 st = settle (use5050 st)"
| "fire UseFreeze st = useFreeze st"
| "fire UseSkip st = settle (useSkip st)"
| "fire (Fire k) st =
     (if k < length (pending st)
      then runTimeout (pending st ! k)
             (st\<lparr>pending := take k (pending st) @ drop (Suc k) (pending st)\<rparr>)
      else st)"
| "fire GoHome st = goHome st"
| "fire (Start qs) st = settle (startGame (st\<lparr>questions := qs\<rparr>))"

fun starts :: "event \<Rightarrow> bool" where
  "starts (Start qs) = True"
| "starts ev = False"

definition run :: "event list \<Rightarrow> state \<Rightarrow> state" where
  "run es st = fold fire es st"

section \<open>Example data\<close>

text \<open>
  The serialisation of a text node: \<^verbatim>\<open>&\<close>, \<^verbatim>\<open><\<close> and \<^verbatim>\<open>>\<close> are written as
  character references. This is what the browser returns for \<^verbatim>\<open>innerHTML\<close> when the
  assigned string holds no tag and no character reference, as in the examples below.
\<close>

fun escapeText :: "string \<Rightarrow> string" where
  "escapeText [] = []"
| "escapeText (c # cs) =
     (if c = CHR ''&'' then ''&amp;''
      else if c = CHR ''<'' then ''&lt;''
      else if c = CHR ''>'' then ''&gt;''
      else [c]) @ escapeText cs"

text \<open>
  The \<^verbatim>\<open>STATE\<close> literal of the script on a freshly loaded page: no cards yet, the
  next button disabled (as \<^verbatim>\<open>nextQuestion\<close> leaves it whenever a question is shown).
\<close>

definition STATE_init :: state where
  "STATE_init =
     \<lparr>questions = [], currIndex = 0, score = 0, streak = 0, timer_live = False,
      timeLeft = TIMER_BASE, difficulty = [],
      lifelines = \<lparr>fifty = True, freeze = True, skip = True\<rparr>,
      isFrozen = False, xp = 0, level = 1, correctCount = 0, wrongCount = 0,
      xpGained = 0, currentQuestionIndex = None, nextBtn_disabled = True,
      cards = [], cardsGen = 0, result_screen = None, pending = [],
      readBack = escapeText\<rparr>"

definition capital :: question where
  "capital =
     \<lparr>correct_answer = ''Paris'', incorrect_answers = [''Rome'', ''Oslo'', ''Bern''],
      answers = [''Rome'', ''Paris'', ''Oslo'', ''Bern''], userSelected = Unset\<rparr>"

definition planet :: question where
  "planet =
     \<lparr>correct_answer = ''Mars'', incorrect_answers = [''Venus'', ''Pluto'', ''Io''],
      answers = [''Mars'', ''Io'', ''Venus'', ''Pluto''], userSelected = Unset\<rparr>"

definition genre :: question where
  "genre =
     \<lparr>correct_answer = ''R&B'', incorrect_answers = [''Pop'', ''Jazz'', ''Rock''],
      answers = [''R&B'', ''Pop'', ''Jazz'', ''Rock''], userSelected = Unset\<rparr>"

definition game1 :: state where
  "game1 = settle (startGame (STATE_init\<lparr>questions := [capital]\<rparr>))"

definition game2 :: state where
  "game2 = settle (startGame (STATE_init\<lparr>questions := [capital, planet]\<rparr>))"

definition game3 :: state where
  "game3 = settle (startGame (STATE_init\<lparr>questions := [genre]\<rparr>))"

section \<open>Playing by the book\<close>

text \<open>
  A player's move as the page intends it: answer by clicking the card at a position, wait
  for the delayed callback to enable the next button and click it; or use the skip
  lifeline. When the click is not taken (no such card, no handler, or the handler threw),
  nothing is pending and the next button stays disabled, so the other two events of the
  move do nothing.
\<close>

datatype move = Answer nat | Skip

fun events_of :: "move \<Rightarrow> event list" where
  "events_of (Answer i) = [Click i, Fire 0, NextClick]"
| "events_of Skip = [UseSkip]"

definition play :: "move list \<Rightarrow> state \<Rightarrow> state" where
  "play ms st = run (concat (map events_of ms)) st"

text \<open>
  The bookkeeping that such play keeps in step: the two counts, plus one once the skip
  lifeline is gone, add up to the index; the next button is disabled and no callback is
  pending.
\<close>

definition in_step :: "state \<Rightarrow> bool" where
  "in_step st \<longleftrightarrow>
     correctCount st + wrongCount st + (if skip (lifelines st) then 0 else 1) = currIndex st
     \<and> nextBtn_disabled st \<and> pending st = []"


text \<open>
  The points of a correct answer in the spec's words, \<open>round((BASE_POINTS + timeBonus)
  * streakMultiplier)\<close> with \<open>streakMultiplier = 1 + floor(currentStreak / 3) * 0.1\<close>,
  in exact arithmetic, a tie rounded up.
\<close>

definition pointsAwarded_spec :: "nat \<Rightarrow> int \<Rightarrow> int" where
  "pointsAwarded_spec s t =
     \<lfloor>(of_int (10 + max 0 t) * (1 + of_nat (s div 3) * (1 / 10)) :: rat) + 1 / 2\<rfloor>"

text \<open>
  A freeze that outlives its session: in \<open>game2\<close> the freeze lifeline is used on the first
  question, the question is answered and the session advances (\<open>advanced\<close>); then a new
  session is started and its freeze lifeline is used (\<open>restarted\<close>), all before the
  callback of the first freeze has fired.
\<close>

definition advanced :: state where
  "advanced = run [UseFreeze, Click 1, Fire 1, NextClick] game2"

definition restarted :: state where
  "restarted = run [Start [capital, planet], UseFreeze] advanced"

text \<open>
  The doubles \<open>1 + k * 0.1\<close> for \<open>k\<close> from 0 to 12, and the check that is run on the
  seconds \<open>ts\<close> for one of them: where the exact product with \<open>10 + t\<close> is a tie, the
  double product rounds up as the exact formula does.
\<close>

definition mult_table :: "rat list" where
  "mult_table =
     [1, 2476979795053773 / 2251799813685248, 5404319552844595 / 4503599627370496,
      5854679515581645 / 4503599627370496, 3152519739159347 / 2251799813685248, 3 / 2,
      3602879701896397 / 2251799813685248, 1914029841632461 / 1125899906842624,
      8106479329266893 / 4503599627370496, 4278419646001971 / 2251799813685248, 2,
      4728779608739021 / 2251799813685248, 2476979795053773 / 1125899906842624]"

definition ties_ok :: "nat \<Rightarrow> rat \<Rightarrow> int list \<Rightarrow> bool" where
  "ties_ok k m ts =
     list_all (\<lambda>t. if ((10 + t) * (10 + int k) + 5) mod 10 = 0
                    then Math_round (fl64 (of_int (10 + t) * m))
                         = ((10 + t) * (10 + int k) + 5) div 10
                    else True) ts"

section \<open>Short sessions and known doubles, evaluated\<close>

lemma fl64_known:
  "fl64 (1 / 10) = 3602879701896397 / 36028797018963968"
  "fl64 (11 / 10) = 2476979795053773 / 2251799813685248"
  "fl64 (23 / 40) = 2589569785738035 / 4503599627370496"
  "fl64 (1 / 2) = 1 / 2"
  by code_simp+

lemma game1_start:
  "(let s = game1 in (nextBtn_disabled s, currIndex s, length (questions s), score s))
   = (True, 0, 1, 0)"
  by code_simp

lemma game1_streak39:
  "(let s = game1\<lparr>streak := 39\<rparr>
    in (streak s, timeLeft s, nextBtn_disabled s,
        score (settle (handleAnswer ''Paris'' ''Paris'' s)) - score s,
        streak (settle (handleAnswer ''Paris'' ''Paris'' s)),
        pointsAwarded_spec 39 15, fl64 (25 * streakMult 39)))
   = (39, 15, True, 57, 40, 58, 8092405580431359 / 140737488355328)"
  by code_simp

lemma game1_click:
  "(let s = fire (Click 1) game1
    in (userSelected (questions s ! 0), score s, streak s, correctCount s, wrongCount s,
        currIndex s, nextBtn_disabled s, onclick (cards s ! 1)))
   = (Picked ''Paris'', 25, 1, 1, 0, 0, True, Some (''Paris'', ''Paris''))"
  by code_simp

lemma game1_click_twice:
  "(let s = fire (Click 1) (fire (Click 1) game1)
    in (score s, streak s, correctCount s, wrongCount s, currIndex s))
   = (50, 2, 2, 0, 0)"
  by code_simp

lemma game1_skip:
  "(let s = fire UseSkip game1
    in (result_screen s \<noteq> None, currIndex s, length (questions s), correctCount s,
        wrongCount s))
   = (True, 1, 1, 0, 0)"
  by code_simp

lemma game3_start:
  "(let s = game3
    in (fifty (lifelines s), questions s ! currIndex s = genre, map onclick (cards s),
        map innerHTML (cards s), map hidden (cards s)))
   = (True, True,
      [Some (''R&B'', ''R&B''), Some (''Pop'', ''R&B''), Some (''Jazz'', ''R&B''),
       Some (''Rock'', ''R&B'')],
      [''R&amp;B'', ''Pop'', ''Jazz'', ''Rock''], [False, False, False, False])"
  by code_simp

lemma game3_fifty:
  "(let s = fire Use5050 game3 in (map hidden (cards s), fifty (lifelines s)))
   = ([True, True, False, False], False)"
  by code_simp

lemma advanced_eval:
  "(let s = advanced
    in (currIndex s, isFrozen s, pending s, freeze (lifelines s)))
   = (1, False, [Unfreeze], False)"
  by code_simp

lemma restarted_eval:
  "(let s = restarted
    in (currIndex s, isFrozen s, pending s, timeLeft (fire Tick s),
        isFrozen (fire (Fire 0) s), pending (fire (Fire 0) s),
        timeLeft (fire Tick (fire (Fire 0) s))))
   = (0, True, [Unfreeze, Unfreeze], 15, False, [Unfreeze], 14)"
  by code_simp

lemma game2_first:
  "(let s = play [Answer 1] game2
    in (length (cards s), onclick (cards s ! 0), currIndex s, length (questions s),
        skip (lifelines s)))
   = (4, Some (''Mars'', ''Mars''), 1, 2, True)"
  by code_simp

lemma game2_both:
  "(let s = play [Answer 1, Answer 0] game2
    in (skip (lifelines s), currIndex s, length (questions s)))
   = (True, 2, 2)"
  by code_simp

lemma game2_skipped:
  "(let s = run [UseSkip, Click 0, Fire 0, NextClick] game2
    in (result_screen s \<noteq> None, currIndex s, score s, xpGained s, xp s, xp game2))
   = (True, 2, 35, 35, 25, 0)"
  by code_simp

section \<open>Timeouts\<close>

text \<open>
  Claim C4. A timeout on the current question awards no points, whatever the streak was:
  \<^verbatim>\<open>handleTimeOut\<close> returns normally, leaves score and XP as they were and sets the
  streak to 0; and so does the tick of an unfrozen countdown that brings the time left
  to 0, which is the only caller of \<^verbatim>\<open>handleTimeOut\<close>.
\<close>

theorem handleTimeOut_zero_points:
  "currIndex st < length (questions st) \<Longrightarrow>
   (\<exists>st'. handleTimeOut st = Inr st' \<and> score st' = score st \<and> xp st' = xp st
          \<and> streak st' = 0)
   \<and> (\<not> isFrozen st \<and> timeLeft st \<le> 1 \<longrightarrow>
        (\<exists>st'. tick st = Inr st' \<and> score st' = score st \<and> xp st' = xp st
               \<and> streak st' = 0 \<and> \<not> timer_live st'))"
  by (simp add: handleTimeOut_def tick_def Let_def)

theorem handleTimeOut_zero_points_witness:
  "currIndex (STATE_init\<lparr>questions := [capital], streak := 7, score := 40, timeLeft := 1\<rparr>)
     < length (questions
         (STATE_init\<lparr>questions := [capital], streak := 7, score := 40, timeLeft := 1\<rparr>))
   \<and> \<not> isFrozen (STATE_init\<lparr>questions := [capital], streak := 7, score := 40, timeLeft := 1\<rparr>)
   \<and> timeLeft (STATE_init\<lparr>questions := [capital], streak := 7, score := 40, timeLeft := 1\<rparr>)
       \<le> 1
   \<and> (\<exists>st'. handleTimeOut
               (STATE_init\<lparr>questions := [capital], streak := 7, score := 40, timeLeft := 1\<rparr>)
              = Inr st'
          \<and> score st' = 40 \<and> xp st' = 0 \<and> streak st' = 0)
   \<and> (\<exists>st'. tick
               (STATE_init\<lparr>questions := [capital], streak := 7, score := 40, timeLeft := 1\<rparr>)
              = Inr st'
          \<and> score st' = 40 \<and> xp st' = 0 \<and> streak st' = 0)"
  using handleTimeOut_zero_points
    [of "STATE_init\<lparr>questions := [capital], streak := 7, score := 40, timeLeft := 1\<rparr>"]
  by (auto simp add: STATE_init_def)

section \<open>The skip lifeline\<close>

text \<open>
  Claim C5. While the skip lifeline is available, \<^verbatim>\<open>useSkip\<close> returns normally and
  adds exactly \<^verbatim>\<open>POINTS_PER_Q\<close> = 10 to the score, leaves the streak (and XP and both
  counts) as they were, consumes the lifeline and moves the index on by one. The countdown
  of the skipped question is stopped: \<^verbatim>\<open>nextQuestion\<close> is entered with the interval
  cleared, and afterwards either the next question has been rendered with a fresh
  countdown, or there was no next question, the session has ended and no countdown runs.
\<close>

theorem useSkip_effect:
  "skip (lifelines st) \<Longrightarrow>
   (\<exists>st2 st'. \<not> timer_live st2 \<and> useSkip st = nextQuestion st2 \<and> useSkip st = Inr st'
      \<and> score st' = score st + 10 \<and> POINTS_PER_Q = 10
      \<and> streak st' = streak st \<and> xp st' = xp st
      \<and> correctCount st' = correctCount st \<and> wrongCount st' = wrongCount st
      \<and> currIndex st' = currIndex st + 1
      \<and> lifelines st' = (lifelines st)\<lparr>skip := False\<rparr>
      \<and> (if currIndex st + 1 < length (questions st)
          then timer_live st' \<and> \<not> isFrozen st'
               \<and> cards st' = renderCards (readBack st) (questions st ! (currIndex st + 1))
               \<and> timeLeft st' \<in> {TIMER_EASY, TIMER_MEDIUM, TIMER_HARD, TIMER_BASE}
          else \<not> timer_live st' \<and> result_screen st' \<noteq> None))"
proof -
  assume avail: "skip (lifelines st)"
  define st2 where
    "st2 = st\<lparr>lifelines := (lifelines st)\<lparr>skip := False\<rparr>,
              score := score st + POINTS_PER_Q, timer_live := False\<rparr>"
  have call: "useSkip st = nextQuestion st2"
    using avail by (simp add: useSkip_def st2_def Let_def)
  show ?thesis
  proof (cases "currIndex st + 1 < length (questions st)")
    case True
    then show ?thesis
      using call
      by (rule_tac x = st2 in exI)
         (simp add: st2_def nextQuestion_def renderQuestion_def startTimer_def Let_def
            POINTS_PER_Q_def)
  next
    case False
    then show ?thesis
      using call
      by (rule_tac x = st2 in exI)
         (simp add: st2_def nextQuestion_def endGame_def Let_def POINTS_PER_Q_def)
  qed
qed

theorem useSkip_effect_witness:
  "skip (lifelines (STATE_init\<lparr>questions := [capital, planet], streak := 4\<rparr>))
   \<and> (\<exists>st'. useSkip (STATE_init\<lparr>questions := [capital, planet], streak := 4\<rparr>) = Inr st'
          \<and> score st' = 10 \<and> streak st' = 4 \<and> currIndex st' = 1
          \<and> \<not> skip (lifelines st') \<and> cards st' = renderCards escapeText planet)"
  using useSkip_effect [of "STATE_init\<lparr>questions := [capital, planet], streak := 4\<rparr>"]
  by (auto simp add: STATE_init_def)

section \<open>Leaving the quiz\<close>

text \<open>
  Claim C10. \<^verbatim>\<open>goHome\<close> is \<^verbatim>\<open>stateReset\<close> as far as the session state goes, and
  \<^verbatim>\<open>stateReset\<close> writes three properties only: \<^verbatim>\<open>score\<close>, \<^verbatim>\<open>questions\<close> and
  \<^verbatim>\<open>currentQuestionIndex\<close>, a property nothing else reads. The index the session logic
  uses (\<^verbatim>\<open>currIndex\<close>), the streak, both counts, the lifeline flags and \<^verbatim>\<open>isFrozen\<close>
  keep the values they had before.
\<close>

theorem goHome_frame:
  "goHome st = st\<lparr>score := 0, currentQuestionIndex := Some 0, questions := []\<rparr>
   \<and> stateReset st = goHome st
   \<and> score (goHome st) = 0 \<and> questions (goHome st) = []
   \<and> currentQuestionIndex (goHome st) = Some 0
   \<and> currIndex (goHome st) = currIndex st
   \<and> streak (goHome st) = streak st
   \<and> correctCount (goHome st) = correctCount st
   \<and> wrongCount (goHome st) = wrongCount st
   \<and> lifelines (goHome st) = lifelines st
   \<and> isFrozen (goHome st) = isFrozen st"
  by (simp add: goHome_def stateReset_def)

section \<open>The 50/50 lifeline\<close>

lemma wrongCards_renderCards:
  "wrongCards c (renderCards rb q)
   = filter (\<lambda>j. rb (answers q ! j) \<noteq> c) [0..<length (answers q)]"
  by (auto simp add: wrongCards_def renderCards_def intro: filter_cong)

lemma length_filter_index:
  "length (filter (\<lambda>j. P (xs ! j)) [0..<length xs]) = length (filter P xs)"
proof -
  have "filter P xs = filter P (map ((!) xs) [0..<length xs])"
    by (simp add: map_nth)
  also have "\<dots> = map ((!) xs) (filter (P \<circ> (!) xs) [0..<length xs])"
    by (simp only: filter_map)
  finally show ?thesis
    by (simp add: comp_def)
qed

lemma length_filter_other:
  assumes "distinct xs" and "c \<in> set xs"
  shows "length (filter (\<lambda>x. x \<noteq> c) xs) = length xs - 1"
proof -
  have "filter (\<lambda>x. x \<noteq> c) xs = removeAll c xs"
    by (induction xs) auto
  also have "\<dots> = remove1 c xs"
    using assms(1) by (simp add: distinct_remove1_removeAll)
  finally show ?thesis
    using assms(2) by (simp add: length_remove1)
qed

lemma hideTwo_two:
  "2 \<le> length w \<Longrightarrow> hideTwo w cs = hideCard (w ! 1) (hideCard (w ! 0) cs)"
proof -
  assume "2 \<le> length w"
  then have "0 < length w" "Suc 0 < length w"
    by auto
  then show ?thesis
    by (simp add: hideTwo_def)
qed

lemma hideCard_length [simp]: "length (hideCard j cs) = length cs"
  by (simp add: hideCard_def)

lemma hideCard_nth:
  "k < length cs \<Longrightarrow>
   hideCard j cs ! k = (if k = j then (cs ! k)\<lparr>hidden := True\<rparr> else cs ! k)"
  by (simp add: hideCard_def nth_list_update)

text \<open>
  When the correct answer reads back as written and no incorrect answer reads back as the
  correct one (plain text without \<^verbatim>\<open>&\<close>, \<^verbatim>\<open><\<close>, \<^verbatim>\<open>>\<close> does), the lifeline does
  what it is meant to do on a freshly rendered question with pairwise distinct answers and
  at least two incorrect ones: exactly two cards are hidden, both incorrect, the correct
  one stays visible, and nothing else changes but the flag.
\<close>

lemma use5050_read_back_plain:
  assumes avail: "fifty (lifelines st)"
    and idx: "currIndex st < length (questions st)"
    and q: "q = questions st ! currIndex st"
    and fresh: "cards st = renderCards (readBack st) q"
    and plain: "readBack st (correct_answer q) = correct_answer q"
      "\<forall>a \<in> set (incorrect_answers q). readBack st a \<noteq> correct_answer q"
    and dist: "distinct (answers q)"
    and perm: "mset (answers q) = mset (incorrect_answers q @ [correct_answer q])"
    and two: "2 \<le> length (incorrect_answers q)"
  shows "\<exists>st' i j. use5050 st = Inr st' \<and> i \<noteq> j
           \<and> i < length (cards st') \<and> j < length (cards st')
           \<and> map innerHTML (cards st') = map (readBack st) (answers q)
           \<and> map onclick (cards st') = map onclick (cards st)
           \<and> answers q ! i \<in> set (incorrect_answers q)
           \<and> answers q ! j \<in> set (incorrect_answers q)
           \<and> answers q ! i \<noteq> answers q ! j
           \<and> (\<forall>k < length (cards st'). hidden (cards st' ! k) \<longleftrightarrow> k = i \<or> k = j)
           \<and> (\<forall>k < length (cards st').
                 answers q ! k = correct_answer q \<longrightarrow> \<not> hidden (cards st' ! k))
           \<and> lifelines st' = (lifelines st)\<lparr>fifty := False\<rparr>
           \<and> score st' = score st \<and> streak st' = streak st \<and> xp st' = xp st
           \<and> correctCount st' = correctCount st \<and> wrongCount st' = wrongCount st"
proof -
  let ?as = "answers q"
  let ?c = "correct_answer q"
  let ?w = "wrongCards ?c (cards st)"
  have set_as: "set ?as = set (incorrect_answers q) \<union> {?c}"
    using mset_eq_setD [OF perm] by simp
  have len_as: "length ?as = length (incorrect_answers q) + 1"
    using mset_eq_length [OF perm] by simp
  have same: "readBack st a \<noteq> ?c \<longleftrightarrow> a \<noteq> ?c" if "a \<in> set ?as" for a
    using that plain set_as by auto
  have "?w = filter (\<lambda>j. readBack st (?as ! j) \<noteq> ?c) [0..<length ?as]"
    by (simp add: fresh wrongCards_renderCards)
  also have "\<dots> = filter (\<lambda>j. ?as ! j \<noteq> ?c) [0..<length ?as]"
    by (rule filter_cong) (simp_all add: same)
  finally have w_eq: "?w = filter (\<lambda>j. ?as ! j \<noteq> ?c) [0..<length ?as]" .
  have "length ?w = length (filter (\<lambda>x. x \<noteq> ?c) ?as)"
    unfolding w_eq by (rule length_filter_index)
  also have "\<dots> = length ?as - 1"
    using dist set_as by (intro length_filter_other) auto
  finally have len_w: "2 \<le> length ?w"
    using len_as two by simp
  define i where "i = ?w ! 0"
  define j where "j = ?w ! 1"
  have pos: "0 < length ?w" "1 < length ?w"
    using len_w by auto
  have "i \<in> set ?w" "j \<in> set ?w"
    unfolding i_def j_def using pos by (simp_all only: nth_mem)
  then have i_props: "i < length ?as" "?as ! i \<noteq> ?c"
    and j_props: "j < length ?as" "?as ! j \<noteq> ?c"
    unfolding w_eq by simp_all
  have "distinct ?w"
    unfolding w_eq by simp
  then have ij: "i \<noteq> j"
    using pos by (simp add: i_def j_def nth_eq_iff_index_eq)
  have in_i: "?as ! i \<in> set (incorrect_answers q)"
    using i_props set_as nth_mem [of i ?as] by auto
  have in_j: "?as ! j \<in> set (incorrect_answers q)"
    using j_props set_as nth_mem [of j ?as] by auto
  have diff: "?as ! i \<noteq> ?as ! j"
    using dist ij i_props(1) j_props(1) by (simp add: nth_eq_iff_index_eq)
  have nonempty: "cards st \<noteq> []"
    using fresh len_as by (auto simp add: renderCards_def)
  define cs' where "cs' = hideCard j (hideCard i (cards st))"
  define st' where
    "st' = st\<lparr>cards := cs', lifelines := (lifelines st)\<lparr>fifty := False\<rparr>\<rparr>"
  have res: "use5050 st = Inr st'"
    using avail idx nonempty len_w
    by (simp add: use5050_def Let_def q [symmetric] hideTwo_two st'_def cs'_def i_def j_def)
  have len_cs: "length (cards st) = length ?as"
    by (simp add: fresh renderCards_def)
  have nth_cs': "cs' ! k = (cards st ! k)\<lparr>hidden := (k = i \<or> k = j)\<rparr>"
    if "k < length ?as" for k
    using that len_cs
    by (auto simp add: cs'_def hideCard_nth fresh renderCards_def)
  have len_cs': "length cs' = length ?as"
    by (simp add: cs'_def len_cs)
  have texts: "map innerHTML cs' = map (readBack st) ?as"
    by (rule nth_equalityI) (simp_all add: len_cs' nth_cs' fresh renderCards_def)
  have handlers: "map onclick cs' = map onclick (cards st)"
    by (rule nth_equalityI) (simp_all add: len_cs' len_cs nth_cs')
  have hid: "hidden (cs' ! k) \<longleftrightarrow> k = i \<or> k = j" if "k < length cs'" for k
    using that by (simp add: len_cs' nth_cs')
  have corr: "\<not> hidden (cs' ! k)" if "k < length cs'" "?as ! k = ?c" for k
    using that i_props j_props by (auto simp add: len_cs' nth_cs')
  show ?thesis
    apply (rule exI [of _ st'], rule exI [of _ i], rule exI [of _ j])
    using res ij i_props(1) j_props(1) texts handlers in_i in_j diff hid corr
    by (simp add: st'_def len_cs')
qed

text \<open>
  Claim C6. \<^verbatim>\<open>use5050\<close> finds the wrong cards by comparing what \<^verbatim>\<open>innerHTML\<close> returns
  with \<^verbatim>\<open>q.correct_answer\<close>. For the question \<open>genre\<close> (correct answer \<^verbatim>\<open>R&B\<close>, three
  incorrect answers, all four distinct) the card of the correct answer reads back as
  \<^verbatim>\<open>R&amp;B\<close>, is taken for a wrong card and, being the first card, is hidden together
  with \<^verbatim>\<open>Pop\<close>: one incorrect answer is hidden, not two, and the correct one is gone.
\<close>

theorem fifty_hides_correct_card:
  "fifty (lifelines game3)
   \<and> questions game3 ! currIndex game3 = genre
   \<and> distinct (answers genre)
   \<and> mset (answers genre) = mset (incorrect_answers genre @ [correct_answer genre])
   \<and> 2 \<le> length (incorrect_answers genre)
   \<and> map onclick (cards game3)
       = [Some (''R&B'', ''R&B''), Some (''Pop'', ''R&B''), Some (''Jazz'', ''R&B''),
          Some (''Rock'', ''R&B'')]
   \<and> map innerHTML (cards game3) = [''R&amp;B'', ''Pop'', ''Jazz'', ''Rock'']
   \<and> map hidden (cards game3) = [False, False, False, False]
   \<and> map hidden (cards (fire Use5050 game3)) = [True, True, False, False]
   \<and> \<not> fifty (lifelines (fire Use5050 game3))"
  using game3_start game3_fifty by (simp add: Let_def genre_def)

section \<open>Frame lemmas of the handlers\<close>

lemma run_Nil [simp]: "run [] st = st"
  by (simp add: run_def)

lemma run_Cons [simp]: "run (e # es) st = run es (fire e st)"
  by (simp add: run_def)

lemma run_append [simp]: "run (es @ fs) st = run fs (run es st)"
  by (simp add: run_def)

lemma handleAnswer_frozen:
  "lifelines (settle (handleAnswer a c st)) = lifelines st
   \<and> isFrozen (settle (handleAnswer a c st)) = isFrozen st"
  by (simp add: handleAnswer_def settle_def addXP_def setTimeout_def Let_def)

lemma tick_frozen:
  "lifelines (settle (tick st)) = lifelines st
   \<and> isFrozen (settle (tick st)) = isFrozen st"
  by (simp add: tick_def handleTimeOut_def settle_def Let_def)

lemma nextQuestion_frozen:
  "lifelines (settle (nextQuestion st)) = lifelines st
   \<and> (isFrozen (settle (nextQuestion st)) \<longrightarrow> isFrozen st)"
  by (simp add: nextQuestion_def renderQuestion_def endGame_def startTimer_def settle_def
      Let_def)

lemma use5050_frozen:
  "freeze (lifelines (settle (use5050 st))) = freeze (lifelines st)
   \<and> isFrozen (settle (use5050 st)) = isFrozen st"
  by (simp add: use5050_def settle_def Let_def)

lemma useSkip_frozen:
  "freeze (lifelines (settle (useSkip st))) = freeze (lifelines st)
   \<and> (isFrozen (settle (useSkip st)) \<longrightarrow> isFrozen st)"
  using nextQuestion_frozen
    [of "st\<lparr>lifelines := (lifelines st)\<lparr>skip := False\<rparr>,
            score := score st + POINTS_PER_Q, timer_live := False\<rparr>"]
  by (simp add: useSkip_def Let_def settle_def)

lemma runTimeout_frozen:
  "lifelines (runTimeout cb st) = lifelines st
   \<and> (isFrozen (runTimeout cb st) \<longrightarrow> isFrozen st)"
  by (cases cb) (simp_all add: runTimeout_def answerDelay_def unfreezeDelay_def Let_def)

lemma fire_keeps_unfrozen:
  assumes "\<not> freeze (lifelines st)" and "\<not> isFrozen st" and "\<not> starts ev"
  shows "\<not> freeze (lifelines (fire ev st)) \<and> \<not> isFrozen (fire ev st)"
proof (cases ev)
  case (Click i)
  then show ?thesis
    using assms handleAnswer_frozen by (simp split: option.split prod.split)
next
  case Tick
  then show ?thesis using assms tick_frozen by simp
next
  case NextClick
  then show ?thesis using assms nextQuestion_frozen [of st] by auto
next
  case Use5050
  then show ?thesis using assms use5050_frozen by simp
next
  case UseFreeze
  then show ?thesis using assms by (simp add: useFreeze_def)
next
  case UseSkip
  then show ?thesis using assms useSkip_frozen [of st] by auto
next
  case (Fire k)
  then show ?thesis
    using assms
      runTimeout_frozen [of "pending st ! k"
        "st\<lparr>pending := take k (pending st) @ drop (Suc k) (pending st)\<rparr>"]
    by auto
next
  case GoHome
  then show ?thesis using assms by (simp add: goHome_def stateReset_def)
next
  case (Start qs)
  then show ?thesis using assms by simp
qed

lemma run_keeps_unfrozen:
  "\<not> freeze (lifelines st) \<Longrightarrow> \<not> isFrozen st \<Longrightarrow> \<forall>e \<in> set es. \<not> starts e \<Longrightarrow>
   \<not> freeze (lifelines (run es st)) \<and> \<not> isFrozen (run es st)"
proof (induction es arbitrary: st)
  case Nil
  then show ?case by simp
next
  case (Cons e es)
  have "\<not> starts e" and rest: "\<forall>e \<in> set es. \<not> starts e"
    using Cons.prems(3) by simp_all
  from fire_keeps_unfrozen [OF Cons.prems(1,2) this(1)] rest
  show ?case by (simp add: Cons.IH)
qed

section \<open>The freeze lifeline and its late callback\<close>

text \<open>
  Within one session the late callback is harmless. Once the freeze lifeline has been
  used, an advance renders the next question with \<^verbatim>\<open>isFrozen\<close> false, and as long as
  no session is started, whatever events follow (clicks, ticks, lifelines, \<^verbatim>\<open>goHome\<close>,
  the pending callbacks in any order), \<^verbatim>\<open>isFrozen\<close> stays false and a late unfreeze
  changes nothing but the list of pending callbacks.
\<close>

lemma unfrozen_until_restart:
  assumes used: "\<not> freeze (lifelines st)"
    and more: "currIndex st + 1 < length (questions st)"
  shows "\<exists>st1. nextQuestion st = Inr st1 \<and> currIndex st1 = currIndex st + 1
           \<and> \<not> isFrozen st1
           \<and> (\<forall>es. (\<forall>e \<in> set es. \<not> starts e) \<longrightarrow>
                 \<not> isFrozen (run es st1) \<and> unfreezeDelay (run es st1) = run es st1)
           \<and> (\<forall>es k. (\<forall>e \<in> set es. \<not> starts e) \<and> k < length (pending (run es st1))
                 \<and> pending (run es st1) ! k = Unfreeze \<longrightarrow>
                 fire (Fire k) (run es st1)
                 = (run es st1)\<lparr>pending := take k (pending (run es st1))
                                            @ drop (Suc k) (pending (run es st1))\<rparr>)"
proof -
  obtain st1 where st1: "nextQuestion st = Inr st1" "currIndex st1 = currIndex st + 1"
    "\<not> isFrozen st1" "lifelines st1 = lifelines st"
    using more
    by (simp add: nextQuestion_def renderQuestion_def startTimer_def Let_def)
  have inv: "\<not> isFrozen (run es st1)" if "\<forall>e \<in> set es. \<not> starts e" for es
    using run_keeps_unfrozen [of st1 es] st1 used that by simp
  have noop: "unfreezeDelay s = s" if "\<not> isFrozen s" for s
    using that by (simp add: unfreezeDelay_def)
  have fired: "fire (Fire k) s = s\<lparr>pending := take k (pending s) @ drop (Suc k) (pending s)\<rparr>"
    if "\<not> isFrozen s" "k < length (pending s)" "pending s ! k = Unfreeze" for s k
    using that by (simp add: runTimeout_def unfreezeDelay_def)
  show ?thesis
    using st1 inv noop fired by blast
qed

text \<open>
  Claim C8. Nothing cancels the callback of \<^verbatim>\<open>useFreeze\<close>, and a new session makes the
  lifeline available again. In \<open>advanced\<close> the session has moved on to its second question
  with the callback of the first freeze still pending; the question starts unfrozen, as
  claimed. In \<open>restarted\<close> a new session has begun and its first question has been frozen
  with the new lifeline: two callbacks are pending. When the older one fires, the clock
  of this unrelated question is released although its own ten seconds have not passed:
  a tick that left the time at 15 now brings it to 14.
\<close>

theorem leftover_unfreeze_ends_new_freeze:
  "currIndex advanced = 1 \<and> \<not> isFrozen advanced \<and> pending advanced = [Unfreeze]
   \<and> \<not> freeze (lifelines advanced)
   \<and> currIndex restarted = 0 \<and> isFrozen restarted
   \<and> pending restarted = [Unfreeze, Unfreeze]
   \<and> timeLeft (fire Tick restarted) = 15
   \<and> \<not> isFrozen (fire (Fire 0) restarted)
   \<and> pending (fire (Fire 0) restarted) = [Unfreeze]
   \<and> timeLeft (fire Tick (fire (Fire 0) restarted)) = 14"
  using advanced_eval restarted_eval by (simp only: Let_def prod.inject simp_thms)

section \<open>Counting resolved questions\<close>

lemma handleTimeOut_counts:
  "handleTimeOut st = Inr st' \<Longrightarrow>
   correctCount st' = correctCount st \<and> wrongCount st' = wrongCount st
   \<and> currIndex st' = currIndex st"
  by (auto simp add: handleTimeOut_def Let_def split: if_splits)

lemma handleAnswer_cases:
  assumes "nextBtn_disabled st" and "pending st = []"
  shows "(\<exists>s1. handleAnswer a c st = Inr s1 \<and> currIndex st < length (questions st)
            \<and> correctCount s1 + wrongCount s1 = correctCount st + wrongCount st + 1
            \<and> currIndex s1 = currIndex st \<and> lifelines s1 = lifelines st
            \<and> nextBtn_disabled s1 \<and> pending s1 = [EnableNext (cardsGen st)])
       \<or> (\<exists>s1. handleAnswer a c st = Inl (TypeError, s1)
            \<and> correctCount s1 = correctCount st \<and> wrongCount s1 = wrongCount st
            \<and> currIndex s1 = currIndex st \<and> lifelines s1 = lifelines st
            \<and> nextBtn_disabled s1 \<and> pending s1 = [])"
  using assms
  by (simp add: handleAnswer_def addXP_def setTimeout_def Let_def)

lemma handleAnswer_accepts:
  assumes "nextBtn_disabled st" and "currIndex st < length (questions st)"
  shows "\<exists>s1. handleAnswer a c st = Inr s1
           \<and> correctCount s1 + wrongCount s1 = correctCount st + wrongCount st + 1
           \<and> currIndex s1 = currIndex st"
  using assms
  by (simp add: handleAnswer_def addXP_def setTimeout_def Let_def)

lemma nextQuestion_counts:
  "\<exists>s. nextQuestion st = Inr s \<and> currIndex s = currIndex st + 1
       \<and> correctCount s = correctCount st \<and> wrongCount s = wrongCount st
       \<and> lifelines s = lifelines st \<and> nextBtn_disabled s \<and> pending s = pending st"
  by (simp add: nextQuestion_def renderQuestion_def endGame_def startTimer_def Let_def)

lemma answerDelay_counts:
  "currIndex (answerDelay g st) = currIndex st
   \<and> correctCount (answerDelay g st) = correctCount st
   \<and> wrongCount (answerDelay g st) = wrongCount st
   \<and> lifelines (answerDelay g st) = lifelines st
   \<and> \<not> nextBtn_disabled (answerDelay g st)
   \<and> pending (answerDelay g st) = pending st"
  by (simp add: answerDelay_def Let_def)

lemma in_step_answer:
  assumes "in_step st"
  shows "in_step (run (events_of (Answer i)) st)"
proof -
  have nb: "nextBtn_disabled st" and pe: "pending st = []"
    using assms by (simp_all add: in_step_def)
  show ?thesis
  proof (cases "i < length (cards st) \<and> onclick (cards st ! i) \<noteq> None")
    case False
    then have "fire (Click i) st = st"
      by (auto split: option.split)
    then show ?thesis
      using assms nb pe by (simp add: run_def)
  next
    case True
    then obtain a c where h: "i < length (cards st)" "onclick (cards st ! i) = Some (a, c)"
      by auto
    then have click: "fire (Click i) st = settle (handleAnswer a c st)"
      by simp
    from handleAnswer_cases [OF nb pe, of a c]
    show ?thesis
    proof (elim disjE exE conjE)
      fix s1
      assume r: "handleAnswer a c st = Inr s1"
        "correctCount s1 + wrongCount s1 = correctCount st + wrongCount st + 1"
        "currIndex s1 = currIndex st" "lifelines s1 = lifelines st"
        "nextBtn_disabled s1" "pending s1 = [EnableNext (cardsGen st)]"
      define s2 where "s2 = answerDelay (cardsGen st) (s1\<lparr>pending := []\<rparr>)"
      have f2: "fire (Fire 0) s1 = s2"
        using r(6) by (simp add: runTimeout_def s2_def)
      have s2: "currIndex s2 = currIndex st" "lifelines s2 = lifelines st"
        "correctCount s2 + wrongCount s2 = correctCount st + wrongCount st + 1"
        "\<not> nextBtn_disabled s2" "pending s2 = []"
        using r answerDelay_counts [of "cardsGen st" "s1\<lparr>pending := []\<rparr>"]
        by (simp_all add: s2_def)
      obtain s3 where s3: "nextQuestion s2 = Inr s3" "currIndex s3 = currIndex s2 + 1"
        "correctCount s3 = correctCount s2" "wrongCount s3 = wrongCount s2"
        "lifelines s3 = lifelines s2" "nextBtn_disabled s3" "pending s3 = pending s2"
        using nextQuestion_counts [of s2] by blast
      have "run (events_of (Answer i)) st = s3"
        using click r(1) f2 s2(4) s3(1) by (simp add: run_def settle_def)
      then show ?thesis
        using assms s2 s3 by (simp add: in_step_def)
    next
      fix s1
      assume r: "handleAnswer a c st = Inl (TypeError, s1)"
        "correctCount s1 = correctCount st" "wrongCount s1 = wrongCount st"
        "currIndex s1 = currIndex st" "lifelines s1 = lifelines st"
        "nextBtn_disabled s1" "pending s1 = []"
      have "run (events_of (Answer i)) st = s1"
        using click r(1,6,7) by (simp add: run_def settle_def)
      then show ?thesis
        using assms r by (simp add: in_step_def)
    qed
  qed
qed

lemma in_step_skip:
  assumes "in_step st"
  shows "in_step (run (events_of Skip) st)"
proof (cases "skip (lifelines st)")
  case False
  then show ?thesis
    using assms by (simp add: run_def useSkip_def settle_def)
next
  case True
  define st2 where
    "st2 = st\<lparr>lifelines := (lifelines st)\<lparr>skip := False\<rparr>,
              score := score st + POINTS_PER_Q, timer_live := False\<rparr>"
  obtain s where s: "nextQuestion st2 = Inr s" "currIndex s = currIndex st2 + 1"
    "correctCount s = correctCount st2" "wrongCount s = wrongCount st2"
    "lifelines s = lifelines st2" "nextBtn_disabled s" "pending s = pending st2"
    using nextQuestion_counts [of st2] by blast
  have "run (events_of Skip) st = s"
    using True s(1) by (simp add: run_def useSkip_def Let_def st2_def settle_def)
  then show ?thesis
    using assms True s by (simp add: in_step_def st2_def)
qed

lemma in_step_play:
  "in_step st \<Longrightarrow> in_step (play ms st)"
proof (induction ms arbitrary: st)
  case Nil
  then show ?case by (simp add: play_def run_def)
next
  case (Cons m ms)
  have "in_step (run (events_of m) st)"
    using Cons.prems in_step_answer in_step_skip by (cases m) simp_all
  from Cons.IH [OF this] show ?case
    by (simp add: play_def run_def)
qed

lemma startGame_in_step:
  assumes "startGame st0 = Inr st1" and "nextBtn_disabled st0" and "pending st0 = []"
  shows "in_step st1"
  using assms
  by (auto simp add: startGame_def renderQuestion_def startTimer_def Let_def in_step_def
      split: if_splits)

text \<open>
  Claim C1, as amended. In a session started by \<^verbatim>\<open>startGame\<close> and played by answering
  (click a card, let the delayed callback enable the next button, click it) and skipping,
  after every move \<^verbatim>\<open>correctCount + wrongCount\<close>, plus one if the skip lifeline has been
  used, equals \<^verbatim>\<open>currIndex\<close>. Between an accepted answer and the click on the next
  button the sum is one ahead of the index, which only \<^verbatim>\<open>nextQuestion\<close> moves. Hence,
  when the index has reached the number of questions and skip was not used, the two
  counts add up to the number of questions.
\<close>

theorem counts_follow_index:
  assumes start: "startGame st0 = Inr st1"
    and btn: "nextBtn_disabled st0"
    and none: "pending st0 = []"
  shows "let s = play ms st1; used = (if skip (lifelines s) then 0 else 1) in
           correctCount s + wrongCount s + used = currIndex s
           \<and> (i < length (cards s) \<and> onclick (cards s ! i) \<noteq> None
                \<and> currIndex s < length (questions s) \<longrightarrow>
              correctCount (fire (Click i) s) + wrongCount (fire (Click i) s) + used
                = currIndex (fire (Click i) s) + 1)
           \<and> (skip (lifelines s) \<and> currIndex s = length (questions s) \<longrightarrow>
              correctCount s + wrongCount s = length (questions s))"
proof -
  define s where "s = play ms st1"
  have inv: "in_step s"
    unfolding s_def by (rule in_step_play [OF startGame_in_step [OF start btn none]])
  then have nb: "nextBtn_disabled s" and pe: "pending s = []"
    and sum: "correctCount s + wrongCount s + (if skip (lifelines s) then 0 else 1)
              = currIndex s"
    by (simp_all add: in_step_def)
  have ahead: "correctCount (fire (Click i) s) + wrongCount (fire (Click i) s)
                 + (if skip (lifelines s) then 0 else 1)
               = currIndex (fire (Click i) s) + 1"
    if h: "i < length (cards s)" "onclick (cards s ! i) \<noteq> None"
      "currIndex s < length (questions s)"
  proof -
    obtain a c where ac: "onclick (cards s ! i) = Some (a, c)"
      using h(2) by auto
    then have click: "fire (Click i) s = settle (handleAnswer a c s)"
      using h(1) by simp
    from handleAnswer_accepts [OF nb h(3), of a c]
    obtain s1 where "handleAnswer a c s = Inr s1"
      "correctCount s1 + wrongCount s1 = correctCount s + wrongCount s + 1"
      "currIndex s1 = currIndex s"
      by blast
    then show ?thesis
      using click sum by (simp add: settle_def)
  qed
  have total: "correctCount s + wrongCount s = length (questions s)"
    if "skip (lifelines s) \<and> currIndex s = length (questions s)"
    using that sum by simp
  show ?thesis
    unfolding Let_def s_def [symmetric] using sum ahead total by blast
qed

theorem counts_follow_index_witness:
  "startGame (STATE_init\<lparr>questions := [capital, planet]\<rparr>) = Inr game2
   \<and> nextBtn_disabled (STATE_init\<lparr>questions := [capital, planet]\<rparr>)
   \<and> pending (STATE_init\<lparr>questions := [capital, planet]\<rparr>) = []
   \<and> (0::nat) < length (cards (play [Answer 1] game2))
   \<and> onclick (cards (play [Answer 1] game2) ! 0) \<noteq> None
   \<and> currIndex (play [Answer 1] game2) < length (questions (play [Answer 1] game2))
   \<and> skip (lifelines (play [Answer 1] game2))
   \<and> correctCount (fire (Click 0) (play [Answer 1] game2))
       + wrongCount (fire (Click 0) (play [Answer 1] game2))
       = currIndex (fire (Click 0) (play [Answer 1] game2)) + 1
   \<and> skip (lifelines (play [Answer 1, Answer 0] game2))
   \<and> currIndex (play [Answer 1, Answer 0] game2)
       = length (questions (play [Answer 1, Answer 0] game2))
   \<and> correctCount (play [Answer 1, Answer 0] game2)
       + wrongCount (play [Answer 1, Answer 0] game2)
       = length (questions (play [Answer 1, Answer 0] game2))"
proof -
  let ?st0 = "STATE_init\<lparr>questions := [capital, planet]\<rparr>"
  have h1: "startGame ?st0 = Inr game2"
    by (simp add: game2_def settle_def startGame_def renderQuestion_def Let_def)
  have h2: "nextBtn_disabled ?st0" and h3: "pending ?st0 = []"
    by (simp_all add: STATE_init_def)
  have a: "(0::nat) < length (cards (play [Answer 1] game2))"
    "onclick (cards (play [Answer 1] game2) ! 0) \<noteq> None"
    "currIndex (play [Answer 1] game2) < length (questions (play [Answer 1] game2))"
    "skip (lifelines (play [Answer 1] game2))"
    using game2_first by (simp_all add: Let_def)
  have b: "skip (lifelines (play [Answer 1, Answer 0] game2))"
    "currIndex (play [Answer 1, Answer 0] game2)
       = length (questions (play [Answer 1, Answer 0] game2))"
    using game2_both by (simp_all add: Let_def)
  show ?thesis
    using counts_follow_index [OF h1 h2 h3, of "[Answer 1]" 0]
      counts_follow_index [OF h1 h2 h3, of "[Answer 1, Answer 0]" 0]
      h1 h2 h3 a b
    by (simp add: Let_def)
qed

text \<open>
  Claim C1 as stated fails. Right after the first answer of a one-question session has
  been recorded the counts add up to 1 while the index is still 0; and a session whose
  only question is skipped ends with the index at the number of questions and both
  counts at 0.
\<close>

theorem counts_index_counterexample:
  "userSelected (questions (fire (Click 1) game1) ! 0) = Picked ''Paris''
   \<and> correctCount (fire (Click 1) game1) + wrongCount (fire (Click 1) game1)
       \<noteq> currIndex (fire (Click 1) game1)
   \<and> result_screen (fire UseSkip game1) \<noteq> None
   \<and> currIndex (fire UseSkip game1) = length (questions (fire UseSkip game1))
   \<and> correctCount (fire UseSkip game1) + wrongCount (fire UseSkip game1)
       \<noteq> length (questions (fire UseSkip game1))"
  using game1_click game1_skip by (simp add: Let_def)

section \<open>Submitting twice\<close>

lemma handleAnswer_guard:
  "\<not> nextBtn_disabled st \<Longrightarrow> handleAnswer a c st = Inr st"
  by (simp add: handleAnswer_def)

lemma handleAnswer_after_timeout:
  "handleTimeOut st = Inr st' \<Longrightarrow> handleAnswer a c st' = Inr st' \<and> fire (Click i) st' = st'"
  by (auto simp add: handleTimeOut_def handleAnswer_def Let_def split: if_splits)

lemma handleAnswer_after_delay:
  "handleAnswer a c (answerDelay g st) = Inr (answerDelay g st)"
  by (simp add: handleAnswer_def answerDelay_def Let_def)

text \<open>
  Claim C3. The guard of \<^verbatim>\<open>handleAnswer\<close> looks at the next button, and that button is
  enabled by the timeout path at once (lemma \<open>handleAnswer_after_timeout\<close>) but by the
  answer path only in the callback that fires 800 ms later (lemma
  \<open>handleAnswer_after_delay\<close>). Until then the cards keep their handlers and the guard
  lets a second submission through: in the one-question session \<open>game1\<close>, a click on the
  correct card gives 25 points, and the same click again, before the callback has fired,
  gives another 25, a streak of 2 and a correct count of 2 on question 0.
\<close>

theorem second_click_counts_again:
  "nextBtn_disabled (fire (Click 1) game1)
   \<and> onclick (cards (fire (Click 1) game1) ! 1) = Some (''Paris'', ''Paris'')
   \<and> userSelected (questions (fire (Click 1) game1) ! 0) = Picked ''Paris''
   \<and> score (fire (Click 1) game1) = 25
   \<and> streak (fire (Click 1) game1) = 1
   \<and> correctCount (fire (Click 1) game1) = 1
   \<and> score (fire (Click 1) (fire (Click 1) game1)) = 50
   \<and> streak (fire (Click 1) (fire (Click 1) game1)) = 2
   \<and> correctCount (fire (Click 1) (fire (Click 1) game1)) = 2
   \<and> currIndex (fire (Click 1) (fire (Click 1) game1)) = 0"
  using game1_click game1_click_twice by (simp add: Let_def)

section \<open>XP and score\<close>

lemma endGame_xpGained:
  "xpGained (endGame st) = score st \<and> score (endGame st) = score st
   \<and> xp (endGame st) = xp st"
  by (simp add: endGame_def Let_def)

text \<open>
  Claim C7. \<^verbatim>\<open>endGame\<close> reports the score as the XP gained in the session (lemma
  \<open>endGame_xpGained\<close>), but \<^verbatim>\<open>STATE.xp\<close> only grows in \<^verbatim>\<open>addXP\<close>, which
  \<^verbatim>\<open>useSkip\<close> does not call when it adds its 10 points. In the two-question session
  \<open>game2\<close>, skipping the first question and answering the second correctly ends with a
  score of 35 and \<^verbatim>\<open>xpGained\<close> = 35, while the XP has grown by 25.
\<close>

theorem skip_points_earn_no_xp:
  "result_screen (run [UseSkip, Click 0, Fire 0, NextClick] game2) \<noteq> None
   \<and> currIndex (run [UseSkip, Click 0, Fire 0, NextClick] game2) = 2
   \<and> score (run [UseSkip, Click 0, Fire 0, NextClick] game2) = 35
   \<and> xpGained (run [UseSkip, Click 0, Fire 0, NextClick] game2) = 35
   \<and> xp (run [UseSkip, Click 0, Fire 0, NextClick] game2) - xp game2 = 25"
  using game2_skipped by (simp add: Let_def)

section \<open>Rounding error of a double\<close>

lemma bitlen_powi:
  assumes "0 < n"
  shows "2 powi (bitlen n - 1) \<le> (of_int n :: rat)" and "(of_int n :: rat) < 2 powi (bitlen n)"
proof -
  from bitlen_bounds [OF assms]
  have lo: "2 ^ nat (bitlen n - 1) \<le> n" and hi: "n < 2 ^ nat (bitlen n)"
    by simp_all
  have pos: "1 \<le> bitlen n"
    using assms by (simp add: bitlen_alt_def)
  have "(2::rat) powi (bitlen n - 1) = 2 ^ nat (bitlen n - 1)"
    using pos by (simp add: power_int_def)
  also have "\<dots> = of_int (2 ^ nat (bitlen n - 1))"
    by simp
  also have "\<dots> \<le> of_int n"
    using lo by (simp only: of_int_le_iff)
  finally show "2 powi (bitlen n - 1) \<le> (of_int n :: rat)" .
  have "(of_int n :: rat) < of_int (2 ^ nat (bitlen n))"
    using hi by (simp only: of_int_less_iff)
  also have "\<dots> = 2 ^ nat (bitlen n)"
    by simp
  also have "\<dots> = 2 powi (bitlen n)"
    using pos by (simp add: power_int_def)
  finally show "(of_int n :: rat) < 2 powi (bitlen n)" .
qed

lemma expo_bounds:
  assumes "0 < x"
  shows "2 powi (expo x) \<le> x" and "x < 2 powi (expo x + 1)"
proof -
  obtain p q where pq: "quotient_of x = (p, q)"
    by (cases "quotient_of x")
  have q: "0 < q"
    using pq by (rule quotient_of_denom_pos)
  have x: "x = of_int p / of_int q"
    using pq by (rule quotient_of_div)
  have p: "0 < p"
    using assms q unfolding x by (simp add: zero_less_divide_iff)
  define d where "d = bitlen p - bitlen q"
  have e: "expo x = (if 2 powi d \<le> x then d else d - 1)"
    by (simp add: expo_def pq d_def Let_def)
  have "2 powi (d - 1) = (2::rat) powi (bitlen p - 1) / 2 powi (bitlen q)"
    by (simp add: d_def power_int_diff [symmetric] algebra_simps)
  also have "\<dots> \<le> of_int p / of_int q"
    using bitlen_powi [OF p] bitlen_powi [OF q] p q
    by (intro frac_le) simp_all
  finally have lo: "2 powi (d - 1) \<le> x"
    by (simp add: x)
  have "of_int p / of_int q < (2::rat) powi (bitlen p) / 2 powi (bitlen q - 1)"
    using bitlen_powi [OF p] bitlen_powi [OF q] p q
    by (intro frac_less) simp_all
  also have "\<dots> = 2 powi (d + 1)"
    by (simp add: d_def power_int_diff [symmetric] algebra_simps)
  finally have hi: "x < 2 powi (d + 1)"
    by (simp add: x)
  show "2 powi (expo x) \<le> x"
    using lo by (simp add: e)
  show "x < 2 powi (expo x + 1)"
    using hi by (auto simp add: e not_le)
qed

lemma rne_error: "\<bar>of_int (rne y) - y\<bar> \<le> 1 / 2"
proof -
  have "of_int \<lfloor>y\<rfloor> \<le> y" "y < of_int \<lfloor>y\<rfloor> + 1"
    by linarith+
  then show ?thesis
    by (auto simp add: rne_def Let_def)
qed

lemma rne_nonneg: "0 \<le> y \<Longrightarrow> 0 \<le> rne y"
  by (auto simp add: rne_def Let_def)

lemma fl64_error:
  assumes "0 < x"
  shows "\<bar>fl64 x - x\<bar> \<le> x / 2 ^ 53"
proof -
  define u :: rat where "u = 2 powi (expo x - 52)"
  have u: "0 < u"
    by (simp add: u_def)
  have f: "fl64 x = of_int (rne (x / u)) * u"
    using assms by (simp add: fl64_def u_def Let_def)
  have "fl64 x - x = (of_int (rne (x / u)) - x / u) * u"
    using u by (simp add: f algebra_simps)
  then have "\<bar>fl64 x - x\<bar> = \<bar>of_int (rne (x / u)) - x / u\<bar> * u"
    using u by (simp add: abs_mult)
  also have "\<dots> \<le> 1 / 2 * u"
    using rne_error [of "x / u"] u by (intro mult_right_mono) simp_all
  also have "\<dots> = 2 powi (expo x) / 2 ^ 53"
    by (simp add: u_def power_int_diff)
  also have "\<dots> \<le> x / 2 ^ 53"
    using expo_bounds(1) [OF assms] by (simp add: divide_right_mono)
  finally show ?thesis .
qed

lemma fl64_nonneg:
  assumes "0 \<le> x"
  shows "0 \<le> fl64 x"
proof (cases "x = 0")
  case True
  then show ?thesis by (simp add: fl64_def)
next
  case False
  have "0 \<le> x / 2 powi (expo \<bar>x\<bar> - 52)"
    using assms by simp
  from rne_nonneg [OF this] show ?thesis
    using False by (simp add: fl64_def Let_def)
qed

section \<open>The accuracy of the summary\<close>

lemma floor_near_fraction:
  fixes a b :: int and z :: rat
  assumes b: "0 < b" and nd: "a mod b \<noteq> 0"
    and near: "\<bar>z - of_int a / of_int b\<bar> < 1 / of_int b"
  shows "\<lfloor>z\<rfloor> = a div b"
proof -
  let ?n = "a div b" and ?m = "a mod b"
  have m: "1 \<le> ?m" "?m \<le> b - 1"
    using b nd pos_mod_sign [of b a] pos_mod_bound [of b a] by linarith+
  have a: "(of_int a :: rat) = of_int ?n * of_int b + of_int ?m"
    by (metis div_mult_mod_eq of_int_add of_int_mult)
  have r: "of_int a / of_int b = (of_int ?n :: rat) + of_int ?m / of_int b"
    using b by (simp add: a add_divide_distrib)
  have lo: "1 / of_int b \<le> (of_int ?m :: rat) / of_int b"
    using m(1) b by (simp add: divide_right_mono)
  have "(of_int ?m :: rat) \<le> of_int b - 1"
    using m(2) by (metis of_int_1 of_int_diff of_int_le_iff)
  then have hi: "(of_int ?m :: rat) / of_int b \<le> 1 - 1 / of_int b"
    using b by (simp add: field_simps)
  have "of_int ?n < z" "z < of_int ?n + 1"
    using near lo hi unfolding r by linarith+
  then show ?thesis
    by (simp add: floor_unique)
qed

lemma floor_near_integer:
  fixes n :: int and z :: rat
  assumes "\<bar>z - of_int n\<bar> < 1"
  shows "\<lfloor>z\<rfloor> = n - 1 \<or> \<lfloor>z\<rfloor> = n"
proof -
  have "of_int (n - 1) < z" "z < of_int (n + 1)"
    using assms by (simp_all add: abs_less_iff)
  then have "n - 1 \<le> \<lfloor>z\<rfloor>" "\<lfloor>z\<rfloor> < n + 1"
    by (simp_all only: le_floor_iff floor_less_iff less_imp_le)
  then show ?thesis
    by linarith
qed





section \<open>Points for a correct answer\<close>

lemma streakMult_values:
  "streakMult 0 = 1" "streakMult 3 = fl64 (11 / 10)" "streakMult 6 = fl64 (12 / 10)"
  by code_simp+

lemma streakMult_step: "streakMult s = streakMult (3 * (s div 3))"
  by (simp add: streakMult_def)

lemma spec_examples: "answerPoints 0 15 = 25" "answerPoints 3 0 = 11"
  by code_simp+

text \<open>
  How far the double computation of the points is from the exact value of the formula:
  the multiplier is within a relative error of \<open>5 / 2^53\<close> of \<open>1 + floor(s / 3) / 10\<close>,
  and the points are the exactly rounded value unless the exact product lies halfway
  between two integers, where they can be one less.
\<close>

lemma fl64_one: "fl64 1 = 1"
  by code_simp

lemma fl64_zero: "fl64 0 = 0"
  by (simp add: fl64_def)

lemma fl64_step:
  fixes x x' e :: rat
  assumes x: "0 < x" and e: "0 \<le> e" "e \<le> 1 / 2" and near: "\<bar>x' - x\<bar> \<le> e * x"
  shows "\<bar>fl64 x' - x\<bar> \<le> (e + 2 / 2 ^ 53) * x"
proof -
  have h: "e * x \<le> 1 / 2 * x"
    using e(2) x by (intro mult_right_mono) simp_all
  have x': "0 < x'" "x' \<le> 2 * x"
    using near h x by linarith+
  have "\<bar>fl64 x' - x'\<bar> \<le> x' / 2 ^ 53"
    by (rule fl64_error [OF x'(1)])
  also have "\<dots> \<le> 2 * x / 2 ^ 53"
    using x'(2) by (simp add: divide_right_mono)
  finally have "\<bar>fl64 x' - x'\<bar> \<le> 2 / 2 ^ 53 * x"
    by simp
  moreover have "\<bar>fl64 x' - x\<bar> \<le> \<bar>fl64 x' - x'\<bar> + \<bar>x' - x\<bar>"
    by linarith
  ultimately have "\<bar>fl64 x' - x\<bar> \<le> 2 / 2 ^ 53 * x + e * x"
    using near by linarith
  then show ?thesis
    by (simp add: algebra_simps)
qed

lemma scale_step:
  fixes x x' e c :: rat
  assumes "0 \<le> c" and "\<bar>x' - x\<bar> \<le> e * x"
  shows "\<bar>c * x' - c * x\<bar> \<le> e * (c * x)"
proof -
  have "\<bar>c * x' - c * x\<bar> = c * \<bar>x' - x\<bar>"
    using assms(1) by (simp add: abs_mult right_diff_distrib [symmetric])
  also have "\<dots> \<le> c * (e * x)"
    using assms by (intro mult_left_mono)
  finally show ?thesis
    by (simp add: algebra_simps)
qed

lemma streakMult_near:
  "\<bar>streakMult s - (1 + of_nat (s div 3) / 10)\<bar>
   \<le> 5 / 2 ^ 53 * (1 + of_nat (s div 3) / 10)"
proof (cases "s div 3 = 0")
  case True
  then show ?thesis
    by (simp add: streakMult_def fl64_zero fl64_one)
next
  case False
  define k :: rat where "k = of_nat (s div 3)"
  have k: "0 < k"
    using False by (simp add: k_def)
  have a: "\<bar>fl64 (1 / 10) - 1 / 10\<bar> \<le> 1 / 2 ^ 53 * (1 / 10)"
    using fl64_error [of "1 / 10"] by simp
  have "\<bar>k * fl64 (1 / 10) - k * (1 / 10)\<bar> \<le> 1 / 2 ^ 53 * (k * (1 / 10))"
    using k a by (intro scale_step) simp_all
  then have "\<bar>fl64 (k * fl64 (1 / 10)) - k * (1 / 10)\<bar>
      \<le> (1 / 2 ^ 53 + 2 / 2 ^ 53) * (k * (1 / 10))"
    using k by (intro fl64_step) simp_all
  then have b: "\<bar>fl64 (k * fl64 (1 / 10)) - k / 10\<bar> \<le> 3 / 2 ^ 53 * (k / 10)"
    by simp
  have "3 / 2 ^ 53 * (k / 10) \<le> 3 / 2 ^ 53 * (1 + k / 10)"
    by (intro mult_left_mono) simp_all
  with b have "\<bar>(1 + fl64 (k * fl64 (1 / 10))) - (1 + k / 10)\<bar> \<le> 3 / 2 ^ 53 * (1 + k / 10)"
    by simp
  then have "\<bar>fl64 (1 + fl64 (k * fl64 (1 / 10))) - (1 + k / 10)\<bar>
      \<le> (3 / 2 ^ 53 + 2 / 2 ^ 53) * (1 + k / 10)"
    using k by (intro fl64_step) simp_all
  then show ?thesis
    by (simp add: streakMult_def k_def)
qed

lemma answerPoints_nearest:
  assumes small: "(10 + max 0 t) * (10 + int (s div 3)) < 2 ^ 50"
  shows "answerPoints s t = pointsAwarded_spec s t
         \<or> answerPoints s t = pointsAwarded_spec s t - 1"
    and "((10 + max 0 t) * (10 + int (s div 3)) + 5) mod 10 \<noteq> 0 \<Longrightarrow>
         answerPoints s t = pointsAwarded_spec s t"
proof -
  define P :: rat where "P = of_int (10 + max 0 t)"
  define M :: rat where "M = 1 + of_nat (s div 3) / 10"
  define z where "z = fl64 (P * streakMult s)"
  define a :: int where "a = (10 + max 0 t) * (10 + int (s div 3)) + 5"
  have P: "0 < P"
    by (simp add: P_def)
  have M: "0 < M"
    by (simp add: M_def add_pos_nonneg)
  have V: "P * M + 1 / 2 = of_int a / of_int 10"
    by (simp add: P_def M_def a_def field_simps)
  have "(of_int (a - 5) :: rat) < of_int (2 ^ 50)"
    using small unfolding a_def by (simp only: of_int_less_iff add_diff_cancel_right')
  then have bound: "P * M < 2 ^ 50 / 10"
    using V by (simp add: field_simps)
  have "\<bar>P * streakMult s - P * M\<bar> \<le> 5 / 2 ^ 53 * (P * M)"
    using P streakMult_near [of s] unfolding M_def by (intro scale_step) simp_all
  then have "\<bar>z - P * M\<bar> \<le> (5 / 2 ^ 53 + 2 / 2 ^ 53) * (P * M)"
    unfolding z_def using P M by (intro fl64_step) simp_all
  also have "\<dots> = 7 / 2 ^ 53 * (P * M)"
    by simp
  also have "\<dots> < 7 / 2 ^ 53 * (2 ^ 50 / 10)"
    using bound by (intro mult_strict_left_mono) simp_all
  also have "\<dots> < 1 / of_int 10"
    by simp
  finally have near: "\<bar>(z + 1 / 2) - of_int a / of_int 10\<bar> < 1 / of_int 10"
    unfolding V [symmetric] by simp
  have pts: "answerPoints s t = \<lfloor>z + 1 / 2\<rfloor>"
    by (simp add: answerPoints_def Let_def Math_round_def z_def P_def POINTS_PER_Q_def)
  have spec: "pointsAwarded_spec s t = a div 10"
  proof -
    have "pointsAwarded_spec s t = \<lfloor>P * M + 1 / 2\<rfloor>"
      by (simp add: pointsAwarded_spec_def P_def M_def)
    also have "\<dots> = \<lfloor>(of_int a :: rat) / of_int 10\<rfloor>"
      by (simp only: V)
    also have "\<dots> = a div 10"
      by (rule floor_divide_of_int_eq)
    finally show ?thesis .
  qed
  have exact: "answerPoints s t = pointsAwarded_spec s t" if "a mod 10 \<noteq> 0"
    using floor_near_fraction [OF _ that near] by (simp add: pts spec)
  have tie: "answerPoints s t = pointsAwarded_spec s t - 1
      \<or> answerPoints s t = pointsAwarded_spec s t" if "a mod 10 = 0"
  proof -
    have "a = (a div 10) * 10"
      using that by (metis add.right_neutral div_mult_mod_eq)
    then have "(of_int a :: rat) = of_int (a div 10) * of_int 10"
      by (metis of_int_mult)
    then have q: "(of_int a :: rat) / of_int 10 = of_int (a div 10)"
      by simp
    from near have "\<bar>(z + 1 / 2) - of_int (a div 10)\<bar> < 1"
      unfolding q by simp
    from floor_near_integer [OF this] show ?thesis
      by (simp add: pts spec)
  qed
  show "answerPoints s t = pointsAwarded_spec s t
    \<or> answerPoints s t = pointsAwarded_spec s t - 1"
    using exact tie by (cases "a mod 10 = 0") auto
  show "answerPoints s t = pointsAwarded_spec s t"
    if "((10 + max 0 t) * (10 + int (s div 3)) + 5) mod 10 \<noteq> 0"
    using that exact by (simp add: a_def)
qed

text \<open>
  Below streak 39 and up to the longest countdown of 60 seconds the ties round as the
  exact formula does. There are 60 of them; each is evaluated.
\<close>

lemma streakMult_table: "map (\<lambda>k. streakMult (3 * k)) [0..<13] = mult_table"
  by code_simp

lemma ties_even:
  "list_all (\<lambda>k. ties_ok k (mult_table ! k) [0..60]) [0, 2, 4, 6, 8, 10, 12]"
  by code_simp

lemma ties_1: "ties_ok 1 (mult_table ! 1) [0..60]"
  by code_simp

lemma ties_3: "ties_ok 3 (mult_table ! 3) [0..60]"
  by code_simp

lemma ties_5a: "ties_ok 5 (mult_table ! 5) [0..20]"
  by code_simp

lemma ties_5b: "ties_ok 5 (mult_table ! 5) [21..40]"
  by code_simp

lemma ties_5c: "ties_ok 5 (mult_table ! 5) [41..60]"
  by code_simp

lemma ties_7: "ties_ok 7 (mult_table ! 7) [0..60]"
  by code_simp

lemma ties_9: "ties_ok 9 (mult_table ! 9) [0..60]"
  by code_simp

lemma ties_11: "ties_ok 11 (mult_table ! 11) [0..60]"
  by code_simp

lemma ties_5: "ties_ok 5 (mult_table ! 5) [0..60]"
proof -
  have "[0..60] = [0..20] @ [21..40] @ [41..(60::int)]"
    by code_simp
  then show ?thesis
    using ties_5a ties_5b ties_5c by (simp add: ties_ok_def)
qed

lemma ties_odd:
  "list_all (\<lambda>k. ties_ok k (mult_table ! k) [0..60]) [1, 3, 5, 7, 9, 11]"
  by (simp only: list.pred_inject ties_1 ties_3 ties_5 ties_7 ties_9 ties_11 simp_thms)

lemma ties_all:
  assumes "k < 13"
  shows "ties_ok k (mult_table ! k) [0..60]"
proof -
  have "k \<in> set ([0, 2, 4, 6, 8, 10, 12] @ [1, 3, 5, 7, 9, 11])"
    using assms by simp arith
  moreover have "list_all (\<lambda>k. ties_ok k (mult_table ! k) [0..60])
      ([0, 2, 4, 6, 8, 10, 12] @ [1, 3, 5, 7, 9, 11])"
    using ties_even ties_odd by (simp only: list_all_append simp_thms)
  ultimately show ?thesis
    by (simp only: list_all_iff)
qed

lemma pointsAwarded_spec_div:
  "pointsAwarded_spec s t = ((10 + max 0 t) * (10 + int (s div 3)) + 5) div 10"
proof -
  let ?a = "(10 + max 0 t) * (10 + int (s div 3)) + 5"
  have "(of_int (10 + max 0 t) * (1 + of_nat (s div 3) * (1 / 10)) :: rat) + 1 / 2
        = of_int ?a / of_int 10"
    by (simp add: field_simps)
  then have "pointsAwarded_spec s t = \<lfloor>(of_int ?a :: rat) / of_int 10\<rfloor>"
    by (simp only: pointsAwarded_spec_def)
  also have "\<dots> = ?a div 10"
    by (rule floor_divide_of_int_eq)
  finally show ?thesis .
qed

lemma answerPoints_exact_small:
  assumes s: "s < 39" and t: "t \<le> 60"
  shows "answerPoints s t = pointsAwarded_spec s t"
proof -
  define k where "k = s div 3"
  define T where "T = max 0 t"
  let ?a = "(10 + T) * (10 + int k) + 5"
  have k: "k < 13"
    using s by (simp add: k_def)
  have T: "0 \<le> T" "T \<le> 60"
    using t by (simp_all add: T_def)
  show ?thesis
  proof (cases "?a mod 10 = 0")
    case False
    have "(10 + T) * (10 + int k) \<le> 70 * 22"
      using k T by (intro mult_mono) simp_all
    then have "(10 + max 0 t) * (10 + int (s div 3)) < 2 ^ 50"
      by (simp add: T_def k_def)
    from answerPoints_nearest(2) [OF this] False show ?thesis
      by (simp add: T_def k_def)
  next
    case True
    have mem: "T \<in> set [0..60]"
      using T by simp
    from ties_all [OF k]
    have all: "\<forall>t \<in> set [0..60].
        if ((10 + t) * (10 + int k) + 5) mod 10 = 0
        then Math_round (fl64 (of_int (10 + t) * (mult_table ! k)))
             = ((10 + t) * (10 + int k) + 5) div 10
        else True"
      unfolding ties_ok_def list_all_iff .
    from all mem have "if ?a mod 10 = 0
        then Math_round (fl64 (of_int (10 + T) * (mult_table ! k))) = ?a div 10
        else True"
      by (rule bspec)
    with True
    have "Math_round (fl64 (of_int (10 + T) * (mult_table ! k))) = ?a div 10"
      by (simp only: if_True)
    moreover have "mult_table ! k = streakMult s"
    proof -
      have "mult_table ! k = map (\<lambda>k. streakMult (3 * k)) [0..<13] ! k"
        by (simp only: streakMult_table)
      also have "\<dots> = streakMult (3 * k)"
        using k by simp
      also have "\<dots> = streakMult s"
        unfolding k_def by (rule streakMult_step [symmetric])
      finally show ?thesis .
    qed
    moreover have "answerPoints s t = Math_round (fl64 (of_int (10 + T) * streakMult s))"
      by (simp add: answerPoints_def Let_def POINTS_PER_Q_def T_def)
    ultimately show ?thesis
      by (simp add: pointsAwarded_spec_div T_def k_def)
  qed
qed

text \<open>
  Claim C2, as amended. A correct answer to the open question (next button still disabled)
  is taken: score and XP grow by
  \<^verbatim>\<open>Math.round((10 + Math.max(0, timeLeft)) * (1 + Math.floor(streak / 3) * 0.1))\<close>,
  each operation being the double operation of the source, with the streak as it was
  before the answer; the streak becomes \<open>s + 1\<close> and the correct count grows by one.
  These points are the value of the exact formula for every streak below 39 with at most
  60 seconds left; beyond that (as long as the product stays below \<open>2^50\<close>) they are that
  value unless the exact product lies halfway between two integers, where they are that
  value or one less. The multiplier is 1 for the streaks 0, 1, 2, the double written
  \<^verbatim>\<open>1.1\<close> for 3, 4, 5 and the double written \<^verbatim>\<open>1.2\<close> for 6, 7, 8.
\<close>

theorem correct_answer_points:
  assumes "nextBtn_disabled st" and "currIndex st < length (questions st)"
  shows "\<exists>st'. handleAnswer ans ans st = Inr st'
           \<and> score st' - score st = answerPoints (streak st) (timeLeft st)
           \<and> xp st' - xp st = answerPoints (streak st) (timeLeft st)
           \<and> streak st' = streak st + 1
           \<and> correctCount st' = correctCount st + 1 \<and> wrongCount st' = wrongCount st
           \<and> answerPoints (streak st) (timeLeft st)
               = Math_round (fl64 (of_int (10 + max 0 (timeLeft st))
                   * fl64 (1 + fl64 (of_nat (streak st div 3) * fl64 (1 / 10)))))
           \<and> (streak st < 39 \<and> timeLeft st \<le> 60 \<longrightarrow>
                answerPoints (streak st) (timeLeft st)
                = pointsAwarded_spec (streak st) (timeLeft st))
           \<and> ((10 + max 0 (timeLeft st)) * (10 + int (streak st div 3)) < 2 ^ 50 \<longrightarrow>
                (answerPoints (streak st) (timeLeft st)
                   = pointsAwarded_spec (streak st) (timeLeft st)
                 \<or> answerPoints (streak st) (timeLeft st)
                   = pointsAwarded_spec (streak st) (timeLeft st) - 1)
                \<and> (((10 + max 0 (timeLeft st)) * (10 + int (streak st div 3)) + 5) mod 10 \<noteq> 0
                     \<longrightarrow> answerPoints (streak st) (timeLeft st)
                          = pointsAwarded_spec (streak st) (timeLeft st)))
           \<and> (streak st \<in> {0, 1, 2} \<longrightarrow> streakMult (streak st) = 1)
           \<and> (streak st \<in> {3, 4, 5} \<longrightarrow> streakMult (streak st) = fl64 (11 / 10))
           \<and> (streak st \<in> {6, 7, 8} \<longrightarrow> streakMult (streak st) = fl64 (12 / 10))"
proof -
  let ?p = "answerPoints (streak st) (timeLeft st)"
  have m0: "streakMult (streak st) = 1" if "streak st \<in> {0, 1, 2}"
    using that streakMult_step [of "streak st"] streakMult_values(1) by auto
  have m1: "streakMult (streak st) = fl64 (11 / 10)" if "streak st \<in> {3, 4, 5}"
    using that streakMult_step [of "streak st"] streakMult_values(2) by auto
  have m2: "streakMult (streak st) = fl64 (12 / 10)" if "streak st \<in> {6, 7, 8}"
    using that streakMult_step [of "streak st"] streakMult_values(3) by auto
  obtain st' where r: "handleAnswer ans ans st = Inr st'"
    "score st' - score st = ?p" "xp st' - xp st = ?p" "streak st' = streak st + 1"
    "correctCount st' = correctCount st + 1" "wrongCount st' = wrongCount st"
    using assms by (simp add: handleAnswer_def addXP_def setTimeout_def Let_def)
  have dbl: "?p = Math_round (fl64 (of_int (10 + max 0 (timeLeft st))
      * fl64 (1 + fl64 (of_nat (streak st div 3) * fl64 (1 / 10)))))"
    by (simp add: answerPoints_def streakMult_def POINTS_PER_Q_def Let_def)
  have small: "?p = pointsAwarded_spec (streak st) (timeLeft st)"
    if "streak st < 39 \<and> timeLeft st \<le> 60"
    using that by (intro answerPoints_exact_small) simp_all
  have near: "?p = pointsAwarded_spec (streak st) (timeLeft st)
      \<or> ?p = pointsAwarded_spec (streak st) (timeLeft st) - 1"
    if "(10 + max 0 (timeLeft st)) * (10 + int (streak st div 3)) < 2 ^ 50"
    using that by (rule answerPoints_nearest(1))
  have off: "?p = pointsAwarded_spec (streak st) (timeLeft st)"
    if "(10 + max 0 (timeLeft st)) * (10 + int (streak st div 3)) < 2 ^ 50"
      "((10 + max 0 (timeLeft st)) * (10 + int (streak st div 3)) + 5) mod 10 \<noteq> 0"
    using that by (rule answerPoints_nearest(2))
  show ?thesis
  proof (intro exI [of _ st'] conjI impI)
    show "handleAnswer ans ans st = Inr st'" by (rule r(1))
    show "score st' - score st = ?p" by (rule r(2))
    show "xp st' - xp st = ?p" by (rule r(3))
    show "streak st' = streak st + 1" by (rule r(4))
    show "correctCount st' = correctCount st + 1" by (rule r(5))
    show "wrongCount st' = wrongCount st" by (rule r(6))
    show "?p = Math_round (fl64 (of_int (10 + max 0 (timeLeft st))
      * fl64 (1 + fl64 (of_nat (streak st div 3) * fl64 (1 / 10)))))" by (rule dbl)
  qed (use m0 m1 m2 small near off in blast)+
qed

theorem correct_answer_points_witness:
  "nextBtn_disabled (game1\<lparr>streak := 3, timeLeft := 0\<rparr>)
   \<and> currIndex (game1\<lparr>streak := 3, timeLeft := 0\<rparr>)
       < length (questions (game1\<lparr>streak := 3, timeLeft := 0\<rparr>))
   \<and> (streak (game1\<lparr>streak := 3, timeLeft := 0\<rparr>) < 39
      \<and> timeLeft (game1\<lparr>streak := 3, timeLeft := 0\<rparr>) \<le> 60)
   \<and> streak (game1\<lparr>streak := 3, timeLeft := 0\<rparr>) \<in> {3, 4, 5}
   \<and> (\<exists>st'. handleAnswer ''Paris'' ''Paris'' (game1\<lparr>streak := 3, timeLeft := 0\<rparr>) = Inr st'
          \<and> score st' - score (game1\<lparr>streak := 3, timeLeft := 0\<rparr>) = 11
          \<and> streak st' = 4)
   \<and> pointsAwarded_spec 3 0 = 11
   \<and> streakMult 3 = fl64 (11 / 10)"
proof -
  let ?s = "game1\<lparr>streak := 3, timeLeft := 0\<rparr>"
  have h1: "nextBtn_disabled ?s" and h2: "currIndex ?s < length (questions ?s)"
    using game1_start by (simp_all add: Let_def)
  have h3: "streak ?s < 39 \<and> timeLeft ?s \<le> 60"
    by simp
  have h4: "streak ?s \<in> {3, 4, 5}"
    by simp
  from correct_answer_points [OF h1 h2, of "''Paris''"]
  obtain st' where r: "handleAnswer ''Paris'' ''Paris'' ?s = Inr st'"
    "score st' - score ?s = answerPoints (streak ?s) (timeLeft ?s)"
    "streak st' = streak ?s + 1"
    "streak ?s < 39 \<and> timeLeft ?s \<le> 60 \<longrightarrow>
       answerPoints (streak ?s) (timeLeft ?s) = pointsAwarded_spec (streak ?s) (timeLeft ?s)"
    "streak ?s \<in> {3, 4, 5} \<longrightarrow> streakMult (streak ?s) = fl64 (11 / 10)"
    by blast
  have v: "pointsAwarded_spec 3 0 = 11"
    by code_simp
  have "answerPoints (streak ?s) (timeLeft ?s) = pointsAwarded_spec (streak ?s) (timeLeft ?s)"
    using r(4) h3 by blast
  then have p: "score st' - score ?s = 11"
    using r(2) v by simp
  have q: "streak st' = 4"
    using r(3) by simp
  have m: "streakMult 3 = fl64 (11 / 10)"
    using r(5) h4 by simp
  have e: "\<exists>st'. handleAnswer ''Paris'' ''Paris'' ?s = Inr st'
          \<and> score st' - score ?s = 11 \<and> streak st' = 4"
    using r(1) p q by blast
  show ?thesis
    by (intro conjI h1 h2 h3 [THEN conjunct1] h3 [THEN conjunct2] h4 e v m)
qed

text \<open>
  Claim C2 as stated fails at streak 39 with 15 seconds left (39 correct answers in a
  row, then a correct answer at the full default countdown): the multiplier is the double
  \<^verbatim>\<open>2.3\<close>, which lies below 2.3, the product with 25 rounds to the double that
  JavaScript prints as \<^verbatim>\<open>57.49999999999999\<close>, and 57 points are awarded, while the
  exact product is 57.5 and the formula gives 58.
\<close>

theorem points_tie_counterexample:
  "streak (game1\<lparr>streak := 39\<rparr>) = 39 \<and> timeLeft (game1\<lparr>streak := 39\<rparr>) = 15
   \<and> nextBtn_disabled (game1\<lparr>streak := 39\<rparr>)
   \<and> score (settle (handleAnswer ''Paris'' ''Paris'' (game1\<lparr>streak := 39\<rparr>)))
       - score (game1\<lparr>streak := 39\<rparr>) = 57
   \<and> streak (settle (handleAnswer ''Paris'' ''Paris'' (game1\<lparr>streak := 39\<rparr>))) = 40
   \<and> pointsAwarded_spec 39 15 = 58
   \<and> fl64 (25 * streakMult 39) = 8092405580431359 / 140737488355328"
  using game1_streak39 by (simp only: Let_def prod.inject simp_thms)

section \<open>Floors of integer quotients\<close>

text \<open>
  A double holds every integer below \<open>2^53\<close> exactly, and the floor of the rounded
  quotient of two such integers is their integer quotient. This is why the model writes
  \<^verbatim>\<open>Math.floor(STATE.streak / 3)\<close> and \<^verbatim>\<open>Math.floor(STATE.xp / 100)\<close> with \<open>div\<close>.
\<close>

lemma rne_of_int: "rne (of_int k) = k"
  by (simp add: rne_def Let_def)

lemma fl64_of_int:
  assumes "0 < m" and "m < 2 ^ 53"
  shows "fl64 (of_int m) = of_int m"
proof -
  define e where "e = expo (of_int m)"
  have pos: "(0::rat) < of_int m"
    using assms(1) by simp
  have "2 powi e \<le> (of_int m :: rat)"
    unfolding e_def by (rule expo_bounds(1) [OF pos])
  also have "(of_int m :: rat) < of_int (2 ^ 53)"
    using assms(2) by (simp only: of_int_less_iff)
  also have "\<dots> = 2 powi 53"
    by simp
  finally have "e < 53"
    by (rule power_int_le_imp_less_exp [rotated]) simp_all
  define n where "n = nat (52 - e)"
  have n: "e - 52 = - int n"
    using \<open>e < 53\<close> by (simp add: n_def)
  have u: "(2::rat) powi (e - 52) = 1 / 2 ^ n"
    by (simp add: n power_int_minus inverse_eq_divide)
  have "of_int m / (2::rat) powi (e - 52) = of_int (m * 2 ^ n)"
    by (simp add: u)
  then have "rne (of_int m / 2 powi (e - 52)) = m * 2 ^ n"
    by (simp only: rne_of_int)
  then show ?thesis
    using assms(1) by (simp add: fl64_def Let_def e_def [symmetric] u)
qed

lemma floor_quotient:
  assumes d: "0 < d" and n: "n < 2 ^ 53"
  shows "\<lfloor>fl64 (of_nat n / of_nat d)\<rfloor> = int (n div d)"
proof (cases "n mod d = 0")
  case True
  have "n div d * d + n mod d = n"
    by (rule div_mult_mod_eq)
  with True have nd: "n = (n div d) * d"
    by simp
  have q: "(of_nat n :: rat) / of_nat d = of_int (int (n div d))"
    using d by (subst nd) simp
  show ?thesis
  proof (cases "n div d = 0")
    case True
    then show ?thesis
      unfolding q by (simp add: fl64_def)
  next
    case False
    have "n div d \<le> n"
      by simp
    from this n have "n div d < 2 ^ 53"
      by (rule le_less_trans)
    then have "int (n div d) < int (2 ^ 53)"
      by (simp only: of_nat_less_iff)
    then have "int (n div d) < 2 ^ 53"
      by simp
    then have "fl64 (of_int (int (n div d))) = of_int (int (n div d))"
      using False by (intro fl64_of_int) simp_all
    then show ?thesis
      unfolding q by simp
  qed
next
  case False
  define x :: rat where "x = of_nat n / of_nat d"
  have x: "0 < x"
    using False d by (cases "n = 0") (simp_all add: x_def)
  have "(of_nat n :: rat) < of_nat (2 ^ 53)"
    using n by (simp only: of_nat_less_iff)
  then have "(of_nat n :: rat) < 2 ^ 53"
    by simp
  then have "x / 2 ^ 53 < 1 / of_nat d"
    using d by (simp add: x_def field_simps)
  with fl64_error [OF x] have near: "\<bar>fl64 x - of_int (int n) / of_int (int d)\<bar> < 1 / of_int (int d)"
    by (simp add: x_def)
  have "int n mod int d = int (n mod d)"
    by (simp only: zmod_int)
  then have "int n mod int d \<noteq> 0"
    using False by simp
  from floor_near_fraction [OF _ this near] d
  show ?thesis
    by (simp add: x_def zdiv_int)
qed

end
